theory Spec2Isabelle
  imports Main "HOL-Library.Word"
begin

section \<open>JavaScript strings\<close>

text \<open>
  A JavaScript string is a sequence of UTF-16 code units; \<open>length\<close>, \<open>includes\<close>,
  \<open>trim\<close> and a regular expression without the \<open>u\<close> flag all work on code units.
  The embedding keeps that: a string is a list of 16-bit words.  \<open>js\<close> writes an ASCII
  literal of the source as such a list.
\<close>

type_synonym jsstring = "16 word list"

definition js :: "string \<Rightarrow> jsstring" where
  "js s = map (\<lambda>c. of_nat (of_char c)) s"

definition COMMA :: "16 word" where "COMMA = 0x2C"
definition DQUOTE :: "16 word" where "DQUOTE = 0x22"
definition NL :: "16 word" where "NL = 0x0A"
definition BACKSLASH :: "16 word" where "BACKSLASH = 0x5C"
definition DOLLAR :: "16 word" where "DOLLAR = 0x24"
definition EURO :: "16 word" where "EURO = 0x20AC"
definition POUND :: "16 word" where "POUND = 0xA3"
definition HASH :: "16 word" where "HASH = 0x23"
definition UNDERSCORE :: "16 word" where "UNDERSCORE = 0x5F"
definition EMDASH :: "16 word" where "EMDASH = 0x2014"

text \<open>\<open>Number.prototype.toString()\<close> on a non-negative integer: its decimal digits.\<close>

fun toString :: "nat \<Rightarrow> jsstring" where
  "toString n =
     (if n < 10 then [of_nat (48 + n)]
      else toString (n div 10) @ [of_nat (48 + n mod 10)])"

declare toString.simps [simp del]

text \<open>\<open>Array.prototype.join(sep)\<close> on an array of strings.\<close>

fun joinWith :: "jsstring \<Rightarrow> jsstring list \<Rightarrow> jsstring" where
  "joinWith sep [] = []"
| "joinWith sep [x] = x"
| "joinWith sep (x # y # ys) = x @ sep @ joinWith sep (y # ys)"

section \<open>Data model\<close>

record options =
  includeHeaders :: bool
  preserveFormatting :: bool
  includeRowNumbers :: bool
  separateSheets :: bool
  includeMetadata :: bool

record metadata =
  originalRowCount :: nat
  originalColumnCount :: nat
  exportedAt :: jsstring

record TableData =
  name :: jsstring
  headers :: "jsstring list"
  rows :: "jsstring list list"
  metadata :: "metadata option"

text \<open>
  An element reference is the index of the element in the document store (section
  ``The document''); \<open>null\<close> is \<open>None\<close>.
\<close>

record DisplayedTable =
  dt_id :: jsstring
  dt_name :: jsstring
  dt_element :: "nat option"
  dt_rowCount :: nat
  dt_columnCount :: nat
  dt_isVisible :: bool

text \<open>
  The declared type of \<open>format\<close> is \<open>'pdf' | 'csv' | 'excel'\<close>; the \<open>default\<close> branch
  of the dispatch in exportDisplayedData handles whatever else arrives at run time, which
  is \<open>OtherFormat\<close> here.
\<close>

datatype export_format = PDF | CSV | Excel | OtherFormat jsstring

record ExportConfig =
  format :: export_format
  fileName :: jsstring
  options :: options
  tables :: "DisplayedTable list"
  tabName :: jsstring

section \<open>CSV serialisation\<close>

text \<open>\<open>value.replace(/"/g, '""')\<close>: every double quote is doubled.\<close>

fun replaceQuotes :: "jsstring \<Rightarrow> jsstring" where
  "replaceQuotes [] = []"
| "replaceQuotes (c # cs) =
     (if c = DQUOTE then DQUOTE # DQUOTE # replaceQuotes cs else c # replaceQuotes cs)"

definition escapeCSVValue :: "jsstring \<Rightarrow> jsstring" where
  "escapeCSVValue v =
     (if COMMA \<in> set v \<or> DQUOTE \<in> set v \<or> NL \<in> set v
      then [DQUOTE] @ replaceQuotes v @ [DQUOTE]
      else v)"

definition createCSVContent :: "TableData \<Rightarrow> options \<Rightarrow> jsstring" where
  "createCSVContent tableData opts =
     (let lines0 = (if includeHeaders opts \<and> length (headers tableData) > 0
                    then [joinWith [COMMA] (map escapeCSVValue (headers tableData))]
                    else []);
          lines1 = lines0 @ map (\<lambda>row. joinWith [COMMA] (map escapeCSVValue row)) (rows tableData)
      in joinWith [NL] lines1)"

text \<open>
  \<open>name.replace(/[^a-z0-9]/gi, '_')\<close>.  Without the \<open>u\<close> flag, case folding never maps a
  code unit from 128 on to an ASCII one, so the class is the ASCII letters and digits.
\<close>

definition isAlnum :: "16 word \<Rightarrow> bool" where
  "isAlnum c = ((0x30 \<le> c \<and> c \<le> 0x39) \<or> (0x41 \<le> c \<and> c \<le> 0x5A) \<or> (0x61 \<le> c \<and> c \<le> 0x7A))"

definition sanitizeName :: "jsstring \<Rightarrow> jsstring" where
  "sanitizeName s = map (\<lambda>c. if isAlnum c then c else UNDERSCORE) s"

text \<open>
  The \<open>forEach\<close> of the single-file branch of exportToCSV, with its index: what it
  appends to \<open>csvContent\<close>.
\<close>

fun csvSections :: "options \<Rightarrow> nat \<Rightarrow> TableData list \<Rightarrow> jsstring" where
  "csvSections opts index [] = []"
| "csvSections opts index (tableData # rest) =
     (if index > 0 then [NL] else []) @ name tableData @ [NL]
       @ createCSVContent tableData opts @ [NL]
       @ csvSections opts (index + 1) rest"

text \<open>
  exportToCSV calls downloadCSV once per document; the model returns these calls in
  order, each as (content, file name).  \<open>now\<close> is \<open>format(new Date(), 'PPP p')\<close>.
\<close>

definition exportToCSV :: "jsstring \<Rightarrow> TableData list \<Rightarrow> ExportConfig \<Rightarrow> (jsstring \<times> jsstring) list" where
  "exportToCSV now tablesData config =
     (if separateSheets (options config) \<and> length tablesData > 1
      then map (\<lambda>tableData.
                  (createCSVContent tableData (options config),
                   fileName config @ js ''-'' @ sanitizeName (name tableData) @ js ''.csv''))
               tablesData
      else
        [((if includeMetadata (options config)
           then tabName config @ js '' - Exported Data'' @ [NL]
                  @ js ''Generated: '' @ now @ [NL]
                  @ js ''Tables: '' @ toString (length tablesData) @ [NL, NL]
           else [])
            @ csvSections (options config) 0 tablesData,
          fileName config @ js ''.csv'')])"

text \<open>
  The reading side of the round trip, written from the usual CSV rule (RFC 4180) and not
  from the source: a field that starts with a double quote runs to the first double quote
  that is not doubled, and a doubled double quote stands for one; any other field runs to
  the next comma or line break.
\<close>

fun csvQuotedField :: "jsstring \<Rightarrow> jsstring" where
  "csvQuotedField [] = []"
| "csvQuotedField [c] = (if c = DQUOTE then [] else [c])"
| "csvQuotedField (c # d # cs) =
     (if c = DQUOTE then (if d = DQUOTE then DQUOTE # csvQuotedField cs else [])
      else c # csvQuotedField (d # cs))"

definition csvParseField :: "jsstring \<Rightarrow> jsstring" where
  "csvParseField s =
     (case s of
        [] \<Rightarrow> []
      | c # cs \<Rightarrow> if c = DQUOTE then csvQuotedField cs
                  else takeWhile (\<lambda>x. x \<noteq> COMMA \<and> x \<noteq> NL) s)"

text \<open>The lines of a document: the pieces between its newlines.\<close>

fun splitLines :: "jsstring \<Rightarrow> jsstring list" where
  "splitLines [] = [[]]"
| "splitLines (c # cs) =
     (if c = NL then [] # splitLines cs
      else (case splitLines cs of [] \<Rightarrow> [[c]] | l # ls \<Rightarrow> (c # l) # ls))"

section \<open>The document\<close>

text \<open>
  The part of the DOM that extractTableData reads and writes.  The document is a store of
  elements; a reference to an element is its index in the store, so two references to one
  element alias.  An element carries its class list, its parent, the three inline style
  properties and the scroll offset that the extraction touches, and, for a table, the
  result of \<open>querySelectorAll('tr')\<close>: its rows in document order, each with the result
  of \<open>row.querySelectorAll('td, th')\<close>.  Of a cell the extraction reads the tag, the
  text content and the markup.  A value assigned to a style property or to the scroll
  offset is the value read from it afterwards.
\<close>

record cell =
  isTh :: bool
  textContent :: jsstring
  innerHTML :: jsstring

record element =
  classList :: "jsstring list"
  parentElement :: "nat option"
  style_width :: jsstring
  style_maxWidth :: jsstring
  style_overflow :: jsstring
  scrollLeft :: int
  trs :: "cell list list"

type_synonym dom = "element list"

datatype js_error = Error jsstring

text \<open>
  \<open>String.prototype.trim()\<close> removes the white space and line terminator code units of
  ECMAScript from both ends.
\<close>

definition isWhiteSpace :: "16 word \<Rightarrow> bool" where
  "isWhiteSpace c =
     (c \<in> set [0x09, 0x0A, 0x0B, 0x0C, 0x0D, 0x20, 0xA0, 0x1680, 0x2028, 0x2029, 0x202F,
                0x205F, 0x3000, 0xFEFF]
      \<or> (0x2000 \<le> c \<and> c \<le> 0x200A))"

definition trim :: "jsstring \<Rightarrow> jsstring" where
  "trim s = rev (dropWhile isWhiteSpace (rev (dropWhile isWhiteSpace s)))"

section \<open>Cell and row extraction\<close>

definition hasCurrency :: "jsstring \<Rightarrow> bool" where
  "hasCurrency s = (DOLLAR \<in> set s \<or> EURO \<in> set s \<or> POUND \<in> set s)"

text \<open>
  \<open>innerHTML.match(/[\\$\<euro>\<pounds>]/)\<close> with the pattern as the source writes it: inside the
  class, the two backslashes are an escaped backslash, so the class has four members, the
  backslash and the three currency symbols.  The result is the first code unit of the
  markup in the class.
\<close>

definition currencyMatch :: "jsstring \<Rightarrow> 16 word option" where
  "currencyMatch html =
     find (\<lambda>c. c = BACKSLASH \<or> c = DOLLAR \<or> c = EURO \<or> c = POUND) html"

text \<open>The body of \<open>cells.forEach\<close>: the value pushed for one cell.\<close>

definition cellValue :: "options \<Rightarrow> cell \<Rightarrow> jsstring" where
  "cellValue opts c =
     (if preserveFormatting opts then
        (let cellValue0 = trim (textContent c);
             html = innerHTML c
         in if hasCurrency html then
              (let text = trim (textContent c)
               in if text \<noteq> [] \<and> \<not> DOLLAR \<in> set text \<and> \<not> EURO \<in> set text
                       \<and> \<not> POUND \<in> set text
                  then (case currencyMatch html of
                          Some m \<Rightarrow> [m] @ text
                        | None \<Rightarrow> cellValue0)
                  else cellValue0)
            else cellValue0)
      else trim (textContent c))"

text \<open>
  \<open>rows.forEach((row, rowIndex) => ...)\<close> as a recursion over the rows left, carrying the
  row index and the two variables the loop assigns, \<open>headers\<close> and \<open>extractedData\<close>.
\<close>

fun extractRows ::
  "options \<Rightarrow> nat \<Rightarrow> cell list list \<Rightarrow> jsstring list \<Rightarrow> jsstring list list
     \<Rightarrow> jsstring list \<times> jsstring list list" where
  "extractRows opts rowIndex [] hdrs extractedData = (hdrs, extractedData)"
| "extractRows opts rowIndex (row # rest) hdrs extractedData =
     (let rowData = map (cellValue opts) row
      in if rowIndex = 0 \<and> ((\<exists>c \<in> set row. isTh c) \<or> includeHeaders opts)
         then extractRows opts (rowIndex + 1) rest rowData extractedData
         else extractRows opts (rowIndex + 1) rest hdrs
                (extractedData @
                   [if includeRowNumbers opts
                    then toString (length extractedData + 1) # rowData
                    else rowData]))"

text \<open>
  What the \<open>try\<close> block returns for the rows \<open>rws\<close> of the table.
\<close>

definition tableDataOf :: "jsstring \<Rightarrow> cell list list \<Rightarrow> options \<Rightarrow> TableData" where
  "tableDataOf now rws opts =
     (let (hdrs, extractedData) = extractRows opts 0 rws [] [];
          hdrs' = (if includeRowNumbers opts \<and> length hdrs > 0 then [HASH] # hdrs else hdrs)
      in \<lparr>name = [],
          headers = hdrs',
          rows = extractedData,
          metadata = (if includeMetadata opts
                      then Some \<lparr>originalRowCount = length rws,
                                  originalColumnCount = length hdrs',
                                  exportedAt = now\<rparr>
                      else None)\<rparr>)"

section \<open>The scroll and overflow neutraliser around the extraction\<close>

definition isScrollContainerClass :: "element \<Rightarrow> bool" where
  "isScrollContainerClass e =
     (js ''overflow-x-auto'' \<in> set (classList e)
      \<or> js ''overflow-auto'' \<in> set (classList e)
      \<or> js ''overflow-scroll'' \<in> set (classList e))"

text \<open>
  \<open>table.closest(selector)\<close>: the element itself or its nearest ancestor that matches.
  The walk up a tree of \<open>length d\<close> elements takes at most \<open>length d\<close> steps, which is the
  bound of the recursion; a reference outside the store counts as \<open>null\<close>.
\<close>

fun closestFrom :: "nat \<Rightarrow> dom \<Rightarrow> nat \<Rightarrow> nat option" where
  "closestFrom 0 d i = None"
| "closestFrom (Suc n) d i =
     (if i < length d then
        (if isScrollContainerClass (d ! i) then Some i
         else (case parentElement (d ! i) of
                 None \<Rightarrow> None
               | Some p \<Rightarrow> closestFrom n d p))
      else None)"

definition closest :: "dom \<Rightarrow> nat \<Rightarrow> nat option" where
  "closest d i = closestFrom (length d) d i"

text \<open>
  A store lists parents first when the parent of every element has a smaller index than the
  element; every tree can be listed so.  For such a store the bound above is enough: a
  larger one gives the same result (lemma \<open>closest_any_fuel\<close>).
\<close>

definition parentsFirst :: "dom \<Rightarrow> bool" where
  "parentsFirst d = (\<forall>i < length d. \<forall>p. parentElement (d ! i) = Some p \<longrightarrow> p < i)"

definition tableContainerOf :: "dom \<Rightarrow> nat \<Rightarrow> nat option" where
  "tableContainerOf d table =
     (case closest d table of
        Some c \<Rightarrow> Some c
      | None \<Rightarrow> (case parentElement (d ! table) of
                   Some p \<Rightarrow> if p < length d then Some p else None
                 | None \<Rightarrow> None))"

text \<open>The assignments of the \<open>try\<close> block, in the order of the source.\<close>

definition tryBlockMutations :: "nat option \<Rightarrow> nat \<Rightarrow> (dom \<Rightarrow> dom) list" where
  "tryBlockMutations tableContainer table =
     (case tableContainer of
        Some c \<Rightarrow> [\<lambda>d. d[c := (d ! c)\<lparr>style_overflow := js ''visible''\<rparr>],
                   \<lambda>d. d[c := (d ! c)\<lparr>scrollLeft := 0\<rparr>]]
      | None \<Rightarrow> [])
     @ [\<lambda>d. d[table := (d ! table)\<lparr>style_width := js ''max-content''\<rparr>],
        \<lambda>d. d[table := (d ! table)\<lparr>style_maxWidth := js ''none''\<rparr>]]"

text \<open>The \<open>finally\<close> block.\<close>

definition finallyRestore ::
  "nat option \<Rightarrow> nat \<Rightarrow> int \<Rightarrow> jsstring \<Rightarrow> jsstring \<Rightarrow> jsstring option \<Rightarrow> dom \<Rightarrow> dom" where
  "finallyRestore tableContainer table originalScrollLeft originalWidth originalMaxWidth
       originalOverflow d =
     (let d1 = d[table := (d ! table)\<lparr>style_width := originalWidth\<rparr>];
          d2 = d1[table := (d1 ! table)\<lparr>style_maxWidth := originalMaxWidth\<rparr>]
      in case tableContainer of
           Some c \<Rightarrow>
             (let d3 = d2[c := (d2 ! c)\<lparr>style_overflow :=
                          (case originalOverflow of
                             Some v \<Rightarrow> if v \<noteq> [] then v else []
                           | None \<Rightarrow> [])\<rparr>]
              in d3[c := (d3 ! c)\<lparr>scrollLeft := originalScrollLeft\<rparr>])
         | None \<Rightarrow> d2)"

text \<open>
  extractTableData.  It returns the table data, or the exception that left the \<open>try\<close>
  block, together with the document after the \<open>finally\<close> block.  No statement of the
  block raises by itself on a live document; to cover an interrupted extraction the model
  takes \<open>interrupt\<close>: \<open>Some (k, e)\<close> makes the block raise \<open>e\<close> once \<open>k\<close> of its
  assignments have run (all of them when there are fewer than \<open>k\<close>), \<open>None\<close> lets it
  finish.  \<open>now\<close> is \<open>format(new Date(), 'PPP p')\<close>.
\<close>

definition extractTableData ::
  "jsstring \<Rightarrow> (nat \<times> js_error) option \<Rightarrow> dom \<Rightarrow> nat \<Rightarrow> options
     \<Rightarrow> (js_error + TableData) \<times> dom" where
  "extractTableData now interrupt d table opts =
     (let tableContainer = tableContainerOf d table;
          originalScrollLeft =
            (case tableContainer of
               Some c \<Rightarrow> if scrollLeft (d ! c) \<noteq> 0 then scrollLeft (d ! c) else 0
             | None \<Rightarrow> 0);
          originalWidth = style_width (d ! table);
          originalMaxWidth = style_maxWidth (d ! table);
          originalOverflow =
            (case tableContainer of Some c \<Rightarrow> Some (style_overflow (d ! c)) | None \<Rightarrow> None);
          steps = tryBlockMutations tableContainer table;
          d1 = fold (\<lambda>step s. step s)
                 (case interrupt of None \<Rightarrow> steps | Some (k, e) \<Rightarrow> take k steps) d;
          result =
            (case interrupt of
               Some (k, e) \<Rightarrow> Inl e
             | None \<Rightarrow> Inr (tableDataOf now (trs (d1 ! table)) opts))
      in (result,
          finallyRestore tableContainer table originalScrollLeft originalWidth
            originalMaxWidth originalOverflow d1))"

text \<open>
  Two notions used to state properties of the extraction.  \<open>numberFrom k rs\<close> is \<open>rs\<close> with
  the numerals of \<open>k + 1\<close>, \<open>k + 2\<close>, ... put in front of its rows.  \<open>sameExcept tc t d s\<close>
  says that the document \<open>s\<close> is \<open>d\<close> but for the width and max-width of element \<open>t\<close>
  and the overflow and scroll offset of element \<open>tc\<close>.
\<close>

fun numberFrom :: "nat \<Rightarrow> jsstring list list \<Rightarrow> jsstring list list" where
  "numberFrom k [] = []"
| "numberFrom k (r # rs) = (toString (k + 1) # r) # numberFrom (k + 1) rs"

definition sameExcept :: "nat option \<Rightarrow> nat \<Rightarrow> dom \<Rightarrow> dom \<Rightarrow> bool" where
  "sameExcept tc t d s =
     (length s = length d \<and>
      (\<forall>i < length d.
         classList (s ! i) = classList (d ! i) \<and> parentElement (s ! i) = parentElement (d ! i)
         \<and> trs (s ! i) = trs (d ! i)
         \<and> (i \<noteq> t \<longrightarrow> style_width (s ! i) = style_width (d ! i)
                       \<and> style_maxWidth (s ! i) = style_maxWidth (d ! i))
         \<and> (Some i \<noteq> tc \<longrightarrow> style_overflow (s ! i) = style_overflow (d ! i)
                       \<and> scrollLeft (s ! i) = scrollLeft (d ! i))))"

section \<open>The export orchestrator\<close>

text \<open>
  What the hook changes outside the document: the \<open>isExporting\<close> state with the calls of
  \<open>setIsExporting\<close> in order, the errors passed to \<open>console.error\<close>, the calls of
  downloadCSV as (content, file name), and the file names passed to \<open>pdf.save\<close>.
\<close>

record hook_state =
  isExporting :: bool
  setIsExportingCalls :: "bool list"
  consoleErrors :: "js_error list"
  csvDownloads :: "(jsstring \<times> jsstring) list"
  pdfSaves :: "jsstring list"

text \<open>
  What the run depends on besides its arguments: the formatted current time, for each
  table element the interruption of its extraction (see extractTableData), and the
  exception the PDF library raises, if any.
\<close>

record env =
  formattedNow :: jsstring
  interruptOf :: "nat \<Rightarrow> (nat \<times> js_error) option"
  pdfFailure :: "js_error option"

text \<open>
  exportToPDF draws with the jsPDF library and ends with \<open>pdf.save(fileName + '.pdf')\<close>.
  The drawing is the library's; the model keeps the outcome: the exception of the library
  if it raises one, else the name of the saved file.
\<close>

definition exportToPDF :: "js_error option \<Rightarrow> TableData list \<Rightarrow> ExportConfig \<Rightarrow> js_error + jsstring" where
  "exportToPDF failure tablesData config =
     (case failure of
        Some e \<Rightarrow> Inl e
      | None \<Rightarrow> Inr (fileName config @ js ''.pdf''))"

text \<open>
  The \<open>map\<close> over the tables that passed the \<open>filter\<close>: each is extracted in turn on the
  document the previous extraction left, and the first exception ends the map.
\<close>

fun extractAll :: "env \<Rightarrow> options \<Rightarrow> DisplayedTable list \<Rightarrow> dom \<Rightarrow> (js_error + TableData list) \<times> dom" where
  "extractAll ev opts [] d = (Inr [], d)"
| "extractAll ev opts (t # ts) d =
     (case dt_element t of
        None \<Rightarrow> extractAll ev opts ts d
      | Some el \<Rightarrow>
          (case extractTableData (formattedNow ev) (interruptOf ev el) d el opts of
             (Inl e, d') \<Rightarrow> (Inl e, d')
           | (Inr data, d') \<Rightarrow>
               (case extractAll ev opts ts d' of
                  (Inl e, d'') \<Rightarrow> (Inl e, d'')
                | (Inr rest, d'') \<Rightarrow> (Inr (data\<lparr>name := dt_name t\<rparr> # rest), d''))))"

text \<open>The \<open>try\<close> block of exportDisplayedData.\<close>

definition exportBody :: "env \<Rightarrow> ExportConfig \<Rightarrow> hook_state \<Rightarrow> dom \<Rightarrow> (js_error + unit) \<times> hook_state \<times> dom" where
  "exportBody ev config s d =
     (case extractAll ev (options config)
             (filter (\<lambda>t. dt_element t \<noteq> None) (tables config)) d of
        (Inl e, d') \<Rightarrow> (Inl e, s, d')
      | (Inr tablesData, d') \<Rightarrow>
          if length tablesData = 0 then (Inl (Error (js ''No table data to export'')), s, d')
          else
            (case format config of
               PDF \<Rightarrow>
                 (case exportToPDF (pdfFailure ev) tablesData config of
                    Inl e \<Rightarrow> (Inl e, s, d')
                  | Inr file \<Rightarrow> (Inr (), s\<lparr>pdfSaves := pdfSaves s @ [file]\<rparr>, d'))
             | CSV \<Rightarrow>
                 (Inr (),
                  s\<lparr>csvDownloads := csvDownloads s @ exportToCSV (formattedNow ev) tablesData config\<rparr>,
                  d')
             | Excel \<Rightarrow>
                 (Inr (),
                  s\<lparr>csvDownloads := csvDownloads s @ exportToCSV (formattedNow ev) tablesData config\<rparr>,
                  d')
             | OtherFormat f \<Rightarrow>
                 (Inl (Error (js ''Unsupported export format: '' @ f)), s, d')))"

text \<open>
  exportDisplayedData: the result is \<open>Inr ()\<close> when the promise resolves and \<open>Inl e\<close> when
  it rejects with \<open>e\<close>.
\<close>

definition exportDisplayedData :: "env \<Rightarrow> ExportConfig \<Rightarrow> hook_state \<Rightarrow> dom \<Rightarrow> (js_error + unit) \<times> hook_state \<times> dom" where
  "exportDisplayedData ev config s d =
     (let s1 = s\<lparr>isExporting := True, setIsExportingCalls := setIsExportingCalls s @ [True]\<rparr>;
          (r, s2, d') = exportBody ev config s1 d;
          s3 = (case r of
                  Inl e \<Rightarrow> s2\<lparr>consoleErrors := consoleErrors s2 @ [e]\<rparr>
                | Inr u \<Rightarrow> s2);
          s4 = s3\<lparr>isExporting := False, setIsExportingCalls := setIsExportingCalls s3 @ [False]\<rparr>
      in (r, s4, d'))"

section \<open>Table discovery\<close>

text \<open>
  What scanForTables reads of a table found by \<open>container.querySelectorAll('table')\<close>:
  the element itself, the text content of its first caption (\<open>None\<close> when it has no
  caption), its preceding element siblings from the nearest on, each with its tag name
  and text content, for every row of \<open>table.querySelectorAll('tr')\<close> the number of its
  \<open>td\<close> and \<open>th\<close> cells, whether \<open>offsetParent\<close> is null, and the computed
  \<open>display\<close> and \<open>visibility\<close>.
\<close>

record sibling =
  tagName :: jsstring
  siblingText :: jsstring

record table_node =
  tn_element :: nat
  tn_caption :: "jsstring option"
  tn_previousSiblings :: "sibling list"
  tn_rowCellCounts :: "nat list"
  tn_offsetParentNull :: bool
  tn_display :: jsstring
  tn_visibility :: jsstring

text \<open>
  \<open>tagName.match(/^H[1-6]$/)\<close>, \<open>String.prototype.startsWith\<close>.
\<close>

definition isHeadingTag :: "jsstring \<Rightarrow> bool" where
  "isHeadingTag tag =
     (case tag of
        [h, n] \<Rightarrow> h = 0x48 \<and> 0x31 \<le> n \<and> n \<le> 0x36
      | _ \<Rightarrow> False)"

definition startsWith :: "jsstring \<Rightarrow> jsstring \<Rightarrow> bool" where
  "startsWith s p = (take (length p) s = p)"

text \<open>
  The \<open>while (current && searchCount < 5)\<close> loop over the preceding siblings: it
  returns the table name and the array \<open>previousElements\<close> as the loop leaves them.  The
  first equation is \<open>current\<close> being null; the heading branch is the \<open>break\<close>.
\<close>

fun walkSiblings ::
  "sibling list \<Rightarrow> nat \<Rightarrow> jsstring \<Rightarrow> jsstring list \<Rightarrow> jsstring \<times> jsstring list" where
  "walkSiblings [] searchCount tableName previousElements = (tableName, previousElements)"
| "walkSiblings (current # rest) searchCount tableName previousElements =
     (if searchCount < 5 then
        (if isHeadingTag (tagName current)
         then ((if trim (siblingText current) \<noteq> [] then trim (siblingText current)
                else tableName),
               previousElements)
         else walkSiblings rest (searchCount + 1) tableName
                (if trim (siblingText current) \<noteq> []
                    \<and> length (trim (siblingText current)) < 100
                 then previousElements @ [trim (siblingText current)]
                 else previousElements))
      else (tableName, previousElements))"

text \<open>
  The name that the callback of \<open>tables.map\<close> gives the table at position \<open>index\<close>.
\<close>

definition tableNameOf :: "nat \<Rightarrow> table_node \<Rightarrow> jsstring" where
  "tableNameOf index node =
     (let tableName = js ''Table '' @ toString (index + 1)
      in case tn_caption node of
           Some c \<Rightarrow> if trim c \<noteq> [] then trim c else tableName
         | None \<Rightarrow>
             (let (tableName1, previousElements) =
                    walkSiblings (tn_previousSiblings node) 0 tableName []
              in if startsWith tableName1 (js ''Table '') \<and> length previousElements > 0
                 then previousElements ! (length previousElements - 1)
                 else tableName1))"

definition nodeIsVisible :: "table_node \<Rightarrow> bool" where
  "nodeIsVisible node =
     (\<not> tn_offsetParentNull node
      \<and> tn_display node \<noteq> js ''none''
      \<and> tn_visibility node \<noteq> js ''hidden'')"

text \<open>
  scanForTables on the tables found, in document order.  \<open>clock index\<close> is the value of
  \<open>Date.now()\<close> when the table at \<open>index\<close> is mapped.
\<close>

definition scanForTables :: "(nat \<Rightarrow> nat) \<Rightarrow> table_node list \<Rightarrow> DisplayedTable list" where
  "scanForTables clock nodes =
     map (\<lambda>(index, node).
            \<lparr>dt_id = js ''table-'' @ toString index @ js ''-'' @ toString (clock index),
             dt_name = tableNameOf index node,
             dt_element = Some (tn_element node),
             dt_rowCount = length (tn_rowCellCounts node),
             dt_columnCount = (case tn_rowCellCounts node of [] \<Rightarrow> 0 | c # cs \<Rightarrow> c),
             dt_isVisible = nodeIsVisible node\<rparr>)
         (enumerate 0 nodes)"

section \<open>The tab-aware collector\<close>

text \<open>
  The collector clicks through a live page, which re-renders between its steps.  The page
  is a state of an arbitrary type \<open>'w\<close> together with the observations and actions the
  collector uses, the \<open>browser\<close>:
  \<^item> \<open>queryTables w r\<close>: the tables under element \<open>r\<close>, as scanForTables reads them;
  \<^item> \<open>dateNow w\<close>: the clock of a scan started in state \<open>w\<close>;
  \<^item> \<open>queryTabs w r\<close>: \<open>r.querySelectorAll('[role="tab"]')\<close>;
  \<^item> \<open>queryActive w r\<close>: the elements under \<open>r\<close> matching
    \<open>[role="tab"][data-state="active"], [role="tab"][aria-selected="true"], .active\<close>;
  \<^item> \<open>queryActiveLoose w r\<close>: the same for the selector of the earlier copy of the hook,
    \<open>[role="tab"][data-state="active"], [aria-selected="true"], .active\<close>;
  \<^item> \<open>readTab w el\<close>: the tag name, attributes and text of element \<open>el\<close>;
  \<^item> \<open>activate w el\<close>: \<open>scrollIntoView\<close>, \<open>focus\<close> and \<open>click\<close> on \<open>el\<close>, giving the
    exception raised, if any, and the next state;
  \<^item> \<open>waitFor w ms\<close>: the state after a timeout of \<open>ms\<close> milliseconds;
  \<^item> \<open>activePanelOf w el\<close>: the active tab panel found from trigger \<open>el\<close> through
    \<open>closest('[role="tablist"]')?.parentElement\<close>, when there is one;
  \<^item> \<open>activeTabContents w r\<close>: the active tab panels under \<open>r\<close>.
  All results below hold for every browser and every state type.
\<close>

record tab_node =
  tab_isHTMLElement :: bool
  tab_tagName :: jsstring
  tab_role :: "jsstring option"
  tab_dataState :: "jsstring option"
  tab_ariaSelected :: "jsstring option"
  tab_textContent :: jsstring
  tab_ariaLabel :: "jsstring option"

record 'w browser =
  queryTables :: "'w \<Rightarrow> nat \<Rightarrow> table_node list"
  dateNow :: "'w \<Rightarrow> nat \<Rightarrow> nat"
  queryTabs :: "'w \<Rightarrow> nat \<Rightarrow> nat list"
  queryActive :: "'w \<Rightarrow> nat \<Rightarrow> nat list"
  readTab :: "'w \<Rightarrow> nat \<Rightarrow> tab_node"
  activate :: "'w \<Rightarrow> nat \<Rightarrow> js_error option \<times> 'w"
  waitFor :: "'w \<Rightarrow> nat \<Rightarrow> 'w"
  activePanelOf :: "'w \<Rightarrow> nat \<Rightarrow> nat option"
  activeTabContents :: "'w \<Rightarrow> nat \<Rightarrow> nat list"
  queryActiveLoose :: "'w \<Rightarrow> nat \<Rightarrow> nat list"

text \<open>
  The variables of one scan: the page, the array \<open>collected\<close>, the set \<open>seen\<close>, and the
  messages passed to \<open>console.warn\<close>.
\<close>

record 'w scan_state =
  world :: 'w
  collected :: "DisplayedTable list"
  seen :: "nat set"
  warnings :: "jsstring list"

text \<open>
  The callback of \<open>found.forEach\<close> in collectVisible, and collectVisible itself;
  \<open>prefix\<close> and \<open>searchContext\<close> are optional arguments, and an empty prefix is falsy.
\<close>

definition collectOne :: "jsstring option \<Rightarrow> DisplayedTable \<Rightarrow> 'w scan_state \<Rightarrow> 'w scan_state" where
  "collectOne prefix t st =
     (case dt_element t of
        None \<Rightarrow> st
      | Some el \<Rightarrow>
          if el \<notin> seen st then
            st\<lparr>seen := insert el (seen st),
               collected := collected st @
                 [t\<lparr>dt_name := (case prefix of
                                  Some p \<Rightarrow> if p \<noteq> [] then p @ js '' '' @ [EMDASH] @ js '' '' @ dt_name t
                                            else dt_name t
                                | None \<Rightarrow> dt_name t),
                    dt_isVisible := True,
                    dt_id := dt_id t @ js ''-'' @
                               (case prefix of
                                  Some p \<Rightarrow> if p \<noteq> [] then p else js ''active''
                                | None \<Rightarrow> js ''active'')\<rparr>]\<rparr>
          else st)"

definition collectVisible ::
  "'w browser \<Rightarrow> nat \<Rightarrow> jsstring option \<Rightarrow> nat option \<Rightarrow> 'w scan_state \<Rightarrow> 'w scan_state" where
  "collectVisible br root prefix searchContext st =
     (let searchRoot = (case searchContext of Some c \<Rightarrow> c | None \<Rightarrow> root);
          found = filter (\<lambda>t. dt_isVisible t \<and> dt_rowCount t > 0)
                    (scanForTables (dateNow br (world st))
                       (queryTables br (world st) searchRoot))
      in fold (collectOne prefix) found st)"

definition inactiveTriggers :: "'w browser \<Rightarrow> 'w \<Rightarrow> nat \<Rightarrow> nat list" where
  "inactiveTriggers br w searchRoot =
     filter (\<lambda>el. tab_tagName (readTab br w el) = js ''BUTTON''
                  \<and> tab_dataState (readTab br w el) \<noteq> Some (js ''active'')
                  \<and> tab_ariaSelected (readTab br w el) \<noteq> Some (js ''true''))
       (queryTabs br w searchRoot)"

definition subTabNameOf :: "tab_node \<Rightarrow> jsstring" where
  "subTabNameOf node =
     (let raw = (if tab_textContent node \<noteq> [] then tab_textContent node
                 else (case tab_ariaLabel node of
                         Some l \<Rightarrow> if l \<noteq> [] then l else []
                       | None \<Rightarrow> []))
      in if trim raw \<noteq> [] then trim raw else js ''Sub Tab'')"

text \<open>
  processTabLevel.  The recursion goes one level deeper at each call and stops above
  level 5, which is the measure of its termination.  In the \<open>try\<close> block only the
  activation can raise; the \<open>catch\<close> warns and the loop goes on with the next trigger.
\<close>

function processTabLevel ::
  "'w browser \<Rightarrow> nat \<Rightarrow> nat \<Rightarrow> jsstring \<Rightarrow> nat \<Rightarrow> 'w scan_state \<Rightarrow> 'w scan_state" where
  "processTabLevel br root searchRoot levelPrefix level st =
     (if level > 5 then
        st\<lparr>warnings := warnings st @
             [js ''Maximum tab nesting level reached ('' @ toString level
                @ js ''), stopping recursion'']\<rparr>
      else
        fold (\<lambda>trigger st1.
                (let subTabName = subTabNameOf (readTab br (world st1) trigger);
                     fullTabName = (if levelPrefix \<noteq> [] then levelPrefix @ js '' > '' @ subTabName
                                    else subTabName)
                 in case activate br (world st1) trigger of
                      (Some e, w1) \<Rightarrow>
                        st1\<lparr>world := w1,
                            warnings := warnings st1 @
                              [js ''Level '' @ toString level @ js '': Sub-tab switch failed for ''
                                 @ fullTabName @ js '':'']\<rparr>
                    | (None, w1) \<Rightarrow>
                        (let w2 = waitFor br (waitFor br w1 1200) 300;
                             st2 = collectVisible br root (Some fullTabName) (Some searchRoot)
                                     (st1\<lparr>world := w2\<rparr>)
                         in case activePanelOf br (world st2) trigger of
                              Some panel \<Rightarrow>
                                processTabLevel br root panel fullTabName (level + 1) st2
                            | None \<Rightarrow> st2)))
          (inactiveTriggers br (world st) searchRoot) st)"
  by pat_completeness auto
termination
  by (relation "measure (\<lambda>(br, root, searchRoot, levelPrefix, level, st). 6 - level)") auto

declare processTabLevel.simps [simp del]

definition getAllActiveTriggers :: "'w browser \<Rightarrow> 'w \<Rightarrow> nat \<Rightarrow> nat list" where
  "getAllActiveTriggers br w searchRoot =
     filter (\<lambda>el. tab_isHTMLElement (readTab br w el)
                  \<and> tab_role (readTab br w el) = Some (js ''tab''))
       (queryActive br w searchRoot)"

text \<open>
  One round of the restoration loop: activate the trigger and wait, or warn when the
  activation raises.
\<close>

definition restoreTrigger :: "'w browser \<Rightarrow> nat \<Rightarrow> 'w scan_state \<Rightarrow> 'w scan_state" where
  "restoreTrigger br trigger st =
     (case activate br (world st) trigger of
        (Some e, w1) \<Rightarrow>
          st\<lparr>world := w1,
             warnings := warnings st @ [js ''Failed to restore initial active tab:'']\<rparr>
      | (None, w1) \<Rightarrow> st\<lparr>world := waitFor br w1 200\<rparr>)"

text \<open>
  scanForTablesIncludingSubTabs returns \<open>collected\<close>; the model returns the whole final
  state of the scan, of which \<open>collected\<close> is a field.
\<close>

definition scanForTablesIncludingSubTabs :: "'w browser \<Rightarrow> nat \<Rightarrow> 'w \<Rightarrow> 'w scan_state" where
  "scanForTablesIncludingSubTabs br root w0 =
     (let st0 = \<lparr>world = w0, collected = [], seen = {}, warnings = []\<rparr>;
          initialActiveTriggers = getAllActiveTriggers br w0 root;
          st1 = collectVisible br root (Some (js ''Initial Active Content'')) None st0;
          st2 = processTabLevel br root root [] 0 st1;
          st3 = fold (\<lambda>activeContent st.
                        processTabLevel br root activeContent (js ''Active Tab Content'') 1 st)
                  (activeTabContents br (world st2) root) st2;
          st4 = fold (restoreTrigger br) (rev initialActiveTriggers) st3;
          st5 = st4\<lparr>world := waitFor br (world st4) 500\<rparr>
      in collectVisible br root (Some (js ''Final Restored State'')) None st5)"

text \<open>
  The repository holds an earlier copy of the hook, with a single-level
  scanForTablesIncludingSubTabs: collectVisible always scans the root, the triggers of the
  root are visited once with no recursion, only the first initially active trigger is
  restored, and there is no final collection.  \<open>visitTrigger\<close> is the body of its loop.
\<close>

definition visitTrigger :: "'w browser \<Rightarrow> nat \<Rightarrow> nat \<Rightarrow> 'w scan_state \<Rightarrow> 'w scan_state" where
  "visitTrigger br root trigger st =
     (let subTabName = subTabNameOf (readTab br (world st) trigger)
      in case activate br (world st) trigger of
           (Some e, w1) \<Rightarrow>
             st\<lparr>world := w1,
                warnings := warnings st @
                  [js ''Sub-tab switch failed for '' @ subTabName @ js '':'']\<rparr>
         | (None, w1) \<Rightarrow>
             collectVisible br root (Some subTabName) None
               (st\<lparr>world := waitFor br w1 300\<rparr>))"

definition scanForTablesIncludingSubTabs_flat :: "'w browser \<Rightarrow> nat \<Rightarrow> 'w \<Rightarrow> 'w scan_state" where
  "scanForTablesIncludingSubTabs_flat br root w0 =
     (let st0 = \<lparr>world = w0, collected = [], seen = {}, warnings = []\<rparr>;
          initialActiveTriggers = queryActiveLoose br w0 root;
          st1 = collectVisible br root None None st0;
          st2 = fold (visitTrigger br root) (inactiveTriggers br (world st1) root) st1
      in case initialActiveTriggers of
           [] \<Rightarrow> st2
         | firstActive # others \<Rightarrow> restoreTrigger br firstActive st2)"

text \<open>
  The invariant of a scan: the elements of the collected entries are pairwise different
  and are exactly the elements in \<open>seen\<close>.
\<close>

definition scanInv :: "'w scan_state \<Rightarrow> bool" where
  "scanInv st =
     (distinct (map dt_element (collected st))
      \<and> set (map dt_element (collected st)) = Some ` seen st)"

section \<open>The naming chain in the words of the specification\<close>

text \<open>
  The siblings the naming looks at are the first five preceding ones; \<open>nearestHeading\<close>
  is the first heading among them, and \<open>shortSnippets\<close> the non-empty trimmed texts
  shorter than 100 code units of those before that heading, nearest first.
\<close>

definition inspectedSiblings :: "table_node \<Rightarrow> sibling list" where
  "inspectedSiblings node = take 5 (tn_previousSiblings node)"

definition nearestHeading :: "table_node \<Rightarrow> sibling option" where
  "nearestHeading node = find (\<lambda>s. isHeadingTag (tagName s)) (inspectedSiblings node)"

definition isShortText :: "jsstring \<Rightarrow> bool" where
  "isShortText t = (t \<noteq> [] \<and> length t < 100)"

definition shortSnippets :: "table_node \<Rightarrow> jsstring list" where
  "shortSnippets node =
     filter isShortText
       (map (\<lambda>s. trim (siblingText s))
          (takeWhile (\<lambda>s. \<not> isHeadingTag (tagName s)) (inspectedSiblings node)))"

definition fallbackName :: "nat \<Rightarrow> jsstring" where
  "fallbackName index = js ''Table '' @ toString (index + 1)"

text \<open>
  The chain as the specification words it: the caption when its trimmed text is not
  empty; otherwise the text of a heading among the five siblings; otherwise the short text
  closest to the table; otherwise \<open>Table N\<close>.
\<close>

definition specTableName :: "nat \<Rightarrow> table_node \<Rightarrow> jsstring" where
  "specTableName index node =
     (if (case tn_caption node of Some c \<Rightarrow> trim c \<noteq> [] | None \<Rightarrow> False)
      then trim (the (tn_caption node))
      else (case nearestHeading node of
              Some h \<Rightarrow> trim (siblingText h)
            | None \<Rightarrow>
                (case filter isShortText
                        (map (\<lambda>s. trim (siblingText s)) (inspectedSiblings node)) of
                   t # ts \<Rightarrow> t
                 | [] \<Rightarrow> fallbackName index)))"

section \<open>A sample document\<close>

text \<open>
  A scroll container (element 0, class \<open>overflow-x-auto\<close>, inline overflow \<open>hidden\<close>,
  scrolled to offset 40) that holds a table (element 1) with a header row and two data
  rows.  The concrete runs below use it.
\<close>

definition sampleDocument :: dom where
  "sampleDocument =
     [\<lparr>classList = [js ''overflow-x-auto''], parentElement = None,
       style_width = [], style_maxWidth = [], style_overflow = js ''hidden'',
       scrollLeft = 40, trs = []\<rparr>,
      \<lparr>classList = [], parentElement = Some 0,
       style_width = js ''100%'', style_maxWidth = [], style_overflow = [],
       scrollLeft = 0,
       trs = [[\<lparr>isTh = True, textContent = js ''Name'', innerHTML = js ''Name''\<rparr>,
               \<lparr>isTh = True, textContent = js ''Revenue'', innerHTML = js ''Revenue''\<rparr>],
              [\<lparr>isTh = False, textContent = js ''Alice'', innerHTML = js ''Alice''\<rparr>,
               \<lparr>isTh = False, textContent = js '' 1,200 '', innerHTML = js '' 1,200 ''\<rparr>],
              [\<lparr>isTh = False, textContent = js ''Bob'', innerHTML = js ''Bob''\<rparr>,
               \<lparr>isTh = False, textContent = js ''800'', innerHTML = js ''800''\<rparr>]]\<rparr>]"

definition sampleOptions :: options where
  "sampleOptions =
     \<lparr>includeHeaders = False, preserveFormatting = True, includeRowNumbers = True,
      separateSheets = False, includeMetadata = False\<rparr>"

definition sampleTable :: DisplayedTable where
  "sampleTable =
     \<lparr>dt_id = js ''table-0-0-active'', dt_name = js ''Table A'', dt_element = Some 1,
      dt_rowCount = 3, dt_columnCount = 2, dt_isVisible = True\<rparr>"

definition sampleConfig :: ExportConfig where
  "sampleConfig =
     \<lparr>format = CSV, fileName = js ''sales'', options = sampleOptions,
      tables = [sampleTable], tabName = js ''Sales''\<rparr>"

definition idleState :: hook_state where
  "idleState =
     \<lparr>isExporting = False, setIsExportingCalls = [], consoleErrors = [],
      csvDownloads = [], pdfSaves = []\<rparr>"

definition quietEnv :: env where
  "quietEnv = \<lparr>formattedNow = js ''now'', interruptOf = (\<lambda>el. None), pdfFailure = None\<rparr>"

text \<open>
  Sample tables for the naming: a table with a caption, one with an empty caption after a
  heading, one after a heading with a note in between, one after two short texts; and a
  sample page with two tabs whose panels both show table 7, next to a table of their own
  (8 under the first tab, 9 under the second).  The state of the page is the index of the
  active tab.
\<close>

definition tableNode :: "nat \<Rightarrow> table_node" where
  "tableNode el =
     \<lparr>tn_element = el, tn_caption = None, tn_previousSiblings = [], tn_rowCellCounts = [2, 2],
      tn_offsetParentNull = False, tn_display = js ''table'', tn_visibility = js ''visible''\<rparr>"

definition captionedNode :: table_node where
  "captionedNode = (tableNode 1)\<lparr>tn_caption := Some (js '' Sales by region '')\<rparr>"

definition emptyCaptionNode :: table_node where
  "emptyCaptionNode =
     (tableNode 2)\<lparr>tn_caption := Some [],
        tn_previousSiblings := [\<lparr>tagName = js ''H2'', siblingText = js ''Revenue''\<rparr>]\<rparr>"

definition headedNode :: table_node where
  "headedNode =
     (tableNode 3)\<lparr>tn_previousSiblings :=
        [\<lparr>tagName = js ''P'', siblingText = js ''updated daily''\<rparr>,
         \<lparr>tagName = js ''H2'', siblingText = js ''Revenue''\<rparr>]\<rparr>"

definition twoSnippetsNode :: table_node where
  "twoSnippetsNode =
     (tableNode 4)\<lparr>tn_previousSiblings :=
        [\<lparr>tagName = js ''P'', siblingText = js ''Near''\<rparr>,
         \<lparr>tagName = js ''DIV'', siblingText = js ''Far''\<rparr>]\<rparr>"

definition fixedClock :: "nat \<Rightarrow> nat" where
  "fixedClock index = 0"

definition tabbedBrowser :: "nat browser" where
  "tabbedBrowser =
     \<lparr>queryTables = (\<lambda>w r. [tableNode 7, tableNode (8 + w)]),
      dateNow = (\<lambda>w i. 0),
      queryTabs = (\<lambda>w r. if r = 0 then [10, 11] else []),
      queryActive = (\<lambda>w r. [10 + w]),
      readTab = (\<lambda>w el.
        \<lparr>tab_isHTMLElement = True, tab_tagName = js ''BUTTON'', tab_role = Some (js ''tab''),
         tab_dataState = Some (if el = 10 + w then js ''active'' else js ''inactive''),
         tab_ariaSelected = None, tab_textContent = js ''Tab'', tab_ariaLabel = None\<rparr>),
      activate = (\<lambda>w el. (None, el - 10)),
      waitFor = (\<lambda>w ms. w),
      activePanelOf = (\<lambda>w el. Some 20),
      activeTabContents = (\<lambda>w r. [20]),
      queryActiveLoose = (\<lambda>w r. [10 + w])\<rparr>"

section \<open>Properties of the CSV escaping\<close>

lemmas char_defs =
  COMMA_def DQUOTE_def NL_def BACKSLASH_def DOLLAR_def EURO_def POUND_def HASH_def
  UNDERSCORE_def EMDASH_def

lemma replaceQuotes_concat:
  "replaceQuotes v = concat (map (\<lambda>c. if c = DQUOTE then [DQUOTE, DQUOTE] else [c]) v)"
  by (induction v) simp_all

lemma csvQuotedField_replaceQuotes:
  "csvQuotedField (replaceQuotes v @ [DQUOTE]) = v"
proof (induction v)
  case Nil
  show ?case by simp
next
  case (Cons c v)
  show ?case
  proof (cases "c = DQUOTE")
    case True
    with Cons show ?thesis by simp
  next
    case False
    obtain d ds where "replaceQuotes v @ [DQUOTE] = d # ds"
      by (cases "replaceQuotes v @ [DQUOTE]") simp_all
    with False Cons show ?thesis by simp
  qed
qed

lemma takeWhile_all: "\<forall>x \<in> set s. P x \<Longrightarrow> takeWhile P s = s"
  by (induction s) simp_all

text \<open>
  Claim C3.  escapeCSVValue returns the quoted form of a value (a double quote, the value
  with each double quote doubled, a double quote) exactly when the value contains a
  comma, a double quote or a newline; it returns any other value unchanged; and reading
  the result back with the usual CSV field rule gives the original value.
\<close>

theorem escapeCSVValue_quotes_iff_special:
  "(escapeCSVValue v =
      [DQUOTE] @ concat (map (\<lambda>c. if c = DQUOTE then [DQUOTE, DQUOTE] else [c]) v) @ [DQUOTE])
     = (COMMA \<in> set v \<or> DQUOTE \<in> set v \<or> NL \<in> set v)
   \<and> (\<not> (COMMA \<in> set v \<or> DQUOTE \<in> set v \<or> NL \<in> set v) \<longrightarrow> escapeCSVValue v = v)
   \<and> csvParseField (escapeCSVValue v) = v"
proof (intro conjI)
  let ?q = "[DQUOTE] @ concat (map (\<lambda>c. if c = DQUOTE then [DQUOTE, DQUOTE] else [c]) v) @ [DQUOTE]"
  have len: "length v < length ?q"
    by (induction v) auto
  have "v \<noteq> ?q"
  proof
    assume "v = ?q"
    then have "length v = length ?q" by (rule arg_cong)
    with len show False by linarith
  qed
  then show "(escapeCSVValue v = ?q) = (COMMA \<in> set v \<or> DQUOTE \<in> set v \<or> NL \<in> set v)"
    by (simp add: escapeCSVValue_def replaceQuotes_concat)
next
  show "\<not> (COMMA \<in> set v \<or> DQUOTE \<in> set v \<or> NL \<in> set v) \<longrightarrow> escapeCSVValue v = v"
    by (simp add: escapeCSVValue_def)
next
  show "csvParseField (escapeCSVValue v) = v"
  proof (cases "COMMA \<in> set v \<or> DQUOTE \<in> set v \<or> NL \<in> set v")
    case True
    then show ?thesis
      by (simp add: escapeCSVValue_def csvParseField_def csvQuotedField_replaceQuotes)
  next
    case False
    then have all: "\<forall>x \<in> set v. x \<noteq> COMMA \<and> x \<noteq> NL" by auto
    from False have "v = [] \<or> hd v \<noteq> DQUOTE" by (cases v) auto
    with False all show ?thesis
      by (cases v) (simp_all add: escapeCSVValue_def csvParseField_def takeWhile_all)
  qed
qed

theorem escapeCSVValue_quotes_iff_special_witness:
  "COMMA \<in> set (js ''1,200'')
   \<and> escapeCSVValue (js ''1,200'') = [DQUOTE] @ js ''1,200'' @ [DQUOTE]
   \<and> COMMA \<notin> set (js ''800'') \<and> DQUOTE \<notin> set (js ''800'') \<and> NL \<notin> set (js ''800'')
   \<and> escapeCSVValue (js ''800'') = js ''800''
   \<and> csvParseField (escapeCSVValue ([DQUOTE] @ js ''a,b'')) = [DQUOTE] @ js ''a,b''"
  using escapeCSVValue_quotes_iff_special [of "js ''1,200''"]
    escapeCSVValue_quotes_iff_special [of "js ''800''"]
    escapeCSVValue_quotes_iff_special [of "[DQUOTE] @ js ''a,b''"]
  by (simp add: js_def char_defs escapeCSVValue_def csvParseField_def)

text \<open>
  Claim C4.  Table A (headers Name, Revenue; rows Alice, 1,200 and Bob, 800) and Table B
  (headers Month, Count; row Jan, 5), serialised with separateSheets off, includeHeaders
  on and includeMetadata off, give exactly one CSV document, whose lines are in order:
  Table A / Name,Revenue / Alice,"1,200" / Bob,800 / an empty line / Table B /
  Month,Count / Jan,5 (and the document ends with a newline).
\<close>

theorem exportToCSV_two_tables_scenario:
  "map (\<lambda>(content, file). (splitLines content, file))
     (exportToCSV now
        [\<lparr>name = js ''Table A'', headers = [js ''Name'', js ''Revenue''],
          rows = [[js ''Alice'', js ''1,200''], [js ''Bob'', js ''800'']], metadata = mdA\<rparr>,
         \<lparr>name = js ''Table B'', headers = [js ''Month'', js ''Count''],
          rows = [[js ''Jan'', js ''5'']], metadata = mdB\<rparr>]
        \<lparr>format = fmt, fileName = file,
         options = \<lparr>includeHeaders = True, preserveFormatting = pf, includeRowNumbers = rn,
                    separateSheets = False, includeMetadata = False\<rparr>,
         tables = ts, tabName = tab\<rparr>)
   = [([js ''Table A'', js ''Name,Revenue'', js ''Alice,'' @ [DQUOTE] @ js ''1,200'' @ [DQUOTE],
        js ''Bob,800'', [], js ''Table B'', js ''Month,Count'', js ''Jan,5'', []],
       file @ js ''.csv'')]"
  by (simp add: exportToCSV_def createCSVContent_def escapeCSVValue_def js_def char_defs)

section \<open>Properties of the extraction\<close>

lemma nth_update_if: "xs[i := x] ! j = (if i = j \<and> i < length xs then x else xs ! j)"
  by (cases "i < length xs") (simp_all add: nth_list_update list_update_beyond)

lemma closestFrom_enough_fuel:
  "parentsFirst d \<Longrightarrow> i < n \<Longrightarrow> i < m \<Longrightarrow> closestFrom n d i = closestFrom m d i"
proof (induction i arbitrary: n m rule: less_induct)
  case (less i)
  from less.prems obtain n' m' where nm: "n = Suc n'" "m = Suc m'"
    by (cases n; cases m) auto
  show ?case
  proof (cases "i < length d \<and> \<not> isScrollContainerClass (d ! i)")
    case False
    then show ?thesis by (auto simp: nm)
  next
    case True
    show ?thesis
    proof (cases "parentElement (d ! i)")
      case None
      with True show ?thesis by (simp add: nm)
    next
      case (Some p)
      with True less.prems(1) have "p < i" by (auto simp: parentsFirst_def)
      with less.prems nm have "closestFrom n' d p = closestFrom m' d p"
        by (intro less.IH) auto
      with True Some show ?thesis by (simp add: nm)
    qed
  qed
qed

lemma closest_any_fuel:
  "parentsFirst d \<Longrightarrow> table < length d \<Longrightarrow> length d \<le> n \<Longrightarrow> closestFrom n d table = closest d table"
  unfolding closest_def by (rule closestFrom_enough_fuel) auto

lemma closestFrom_in_range: "closestFrom n d i = Some c \<Longrightarrow> c < length d"
  by (induction n d i rule: closestFrom.induct) (auto split: if_splits option.splits)

lemma tableContainerOf_in_range: "tableContainerOf d t = Some c \<Longrightarrow> c < length d"
  by (auto simp: tableContainerOf_def closest_def split: option.splits if_splits
      dest: closestFrom_in_range)

lemma sameExcept_refl: "sameExcept tc t d d"
  by (simp add: sameExcept_def)

lemma sameExcept_step:
  assumes "sameExcept tc t d s" and "step \<in> set (tryBlockMutations tc t)"
  shows "sameExcept tc t d (step s)"
proof (cases tc)
  case None
  with assms show ?thesis
    by (auto simp: sameExcept_def tryBlockMutations_def nth_update_if)
next
  case (Some c)
  with assms show ?thesis
    by (auto simp: sameExcept_def tryBlockMutations_def nth_update_if)
qed

lemma sameExcept_fold:
  "sameExcept tc t d s \<Longrightarrow> set ms \<subseteq> set (tryBlockMutations tc t)
     \<Longrightarrow> sameExcept tc t d (fold (\<lambda>step s. step s) ms s)"
  by (induction ms arbitrary: s) (simp_all add: sameExcept_step)

lemma finallyRestore_sameExcept:
  assumes "sameExcept tc t d s"
  shows "finallyRestore tc t
           (case tc of Some c \<Rightarrow> scrollLeft (d ! c) | None \<Rightarrow> 0)
           (style_width (d ! t)) (style_maxWidth (d ! t))
           (case tc of Some c \<Rightarrow> Some (style_overflow (d ! c)) | None \<Rightarrow> None) s = d"
proof (rule nth_equalityI)
  show "length (finallyRestore tc t
           (case tc of Some c \<Rightarrow> scrollLeft (d ! c) | None \<Rightarrow> 0)
           (style_width (d ! t)) (style_maxWidth (d ! t))
           (case tc of Some c \<Rightarrow> Some (style_overflow (d ! c)) | None \<Rightarrow> None) s) = length d"
    using assms by (simp add: finallyRestore_def sameExcept_def Let_def split: option.splits)
next
  fix i
  assume "i < length (finallyRestore tc t
           (case tc of Some c \<Rightarrow> scrollLeft (d ! c) | None \<Rightarrow> 0)
           (style_width (d ! t)) (style_maxWidth (d ! t))
           (case tc of Some c \<Rightarrow> Some (style_overflow (d ! c)) | None \<Rightarrow> None) s)"
  with assms have i: "i < length d" "i < length s"
    by (simp_all add: finallyRestore_def sameExcept_def Let_def split: option.splits)
  from assms i have fields:
    "classList (s ! i) = classList (d ! i)" "parentElement (s ! i) = parentElement (d ! i)"
    "trs (s ! i) = trs (d ! i)"
    "i \<noteq> t \<Longrightarrow> style_width (s ! i) = style_width (d ! i)"
    "i \<noteq> t \<Longrightarrow> style_maxWidth (s ! i) = style_maxWidth (d ! i)"
    "Some i \<noteq> tc \<Longrightarrow> style_overflow (s ! i) = style_overflow (d ! i)"
    "Some i \<noteq> tc \<Longrightarrow> scrollLeft (s ! i) = scrollLeft (d ! i)"
    by (simp_all add: sameExcept_def)
  show "finallyRestore tc t
           (case tc of Some c \<Rightarrow> scrollLeft (d ! c) | None \<Rightarrow> 0)
           (style_width (d ! t)) (style_maxWidth (d ! t))
           (case tc of Some c \<Rightarrow> Some (style_overflow (d ! c)) | None \<Rightarrow> None) s ! i = d ! i"
  proof (cases tc)
    case None
    with i fields show ?thesis
      by (cases "i = t") (simp_all add: finallyRestore_def Let_def nth_update_if)
  next
    case (Some c)
    with i fields show ?thesis
      by (cases "i = t"; cases "i = c") (simp_all add: finallyRestore_def Let_def nth_update_if)
  qed
qed


lemma extractTableData_frame:
  "snd (extractTableData now interrupt d table opts) = d"
proof -
  let ?tc = "tableContainerOf d table"
  let ?ms = "case interrupt of None \<Rightarrow> tryBlockMutations ?tc table
             | Some (k, e) \<Rightarrow> take k (tryBlockMutations ?tc table)"
  have "set ?ms \<subseteq> set (tryBlockMutations ?tc table)"
    by (auto split: option.splits dest: in_set_takeD)
  then have "sameExcept ?tc table d (fold (\<lambda>step s. step s) ?ms d)"
    by (rule sameExcept_fold [OF sameExcept_refl])
  then have "finallyRestore ?tc table
           (case ?tc of Some c \<Rightarrow> scrollLeft (d ! c) | None \<Rightarrow> 0)
           (style_width (d ! table)) (style_maxWidth (d ! table))
           (case ?tc of Some c \<Rightarrow> Some (style_overflow (d ! c)) | None \<Rightarrow> None)
           (fold (\<lambda>step s. step s) ?ms d) = d"
    by (rule finallyRestore_sameExcept)
  moreover have "(case ?tc of Some c \<Rightarrow> if scrollLeft (d ! c) \<noteq> 0 then scrollLeft (d ! c) else 0
             | None \<Rightarrow> 0) = (case ?tc of Some c \<Rightarrow> scrollLeft (d ! c) | None \<Rightarrow> 0)"
    by (simp split: option.splits)
  ultimately show ?thesis
    by (simp add: extractTableData_def Let_def)
qed

lemma extractTableData_result:
  assumes "table < length d"
  shows "fst (extractTableData now interrupt d table opts) =
     (case interrupt of Some (k, e) \<Rightarrow> Inl e
      | None \<Rightarrow> Inr (tableDataOf now (trs (d ! table)) opts))"
proof -
  let ?tc = "tableContainerOf d table"
  have "sameExcept ?tc table d (fold (\<lambda>step s. step s) (tryBlockMutations ?tc table) d)"
    by (rule sameExcept_fold [OF sameExcept_refl]) simp
  with assms have "trs (fold (\<lambda>step s. step s) (tryBlockMutations ?tc table) d ! table) = trs (d ! table)"
    by (simp add: sameExcept_def)
  then show ?thesis
    by (simp add: extractTableData_def Let_def split: option.splits)
qed


lemma cellValue_rowNumbers [simp]:
  "cellValue (opts\<lparr>includeRowNumbers := b\<rparr>) = cellValue opts"
  by (rule ext) (simp add: cellValue_def)

lemma extractRows_later:
  "extractRows opts (Suc i) rs h ex =
     (h, ex @ (if includeRowNumbers opts
               then numberFrom (length ex) (map (map (cellValue opts)) rs)
               else map (map (cellValue opts)) rs))"
proof (induction rs arbitrary: i ex)
  case Nil
  show ?case by simp
next
  case (Cons r rs)
  show ?case by (simp add: Cons.IH Let_def)
qed

lemma extractRows_first:
  "extractRows opts 0 (r # rs) [] [] =
     (if (\<exists>c \<in> set r. isTh c) \<or> includeHeaders opts
      then (map (cellValue opts) r,
            if includeRowNumbers opts
            then numberFrom 0 (map (map (cellValue opts)) rs)
            else map (map (cellValue opts)) rs)
      else ([],
            if includeRowNumbers opts
            then numberFrom 0 (map (map (cellValue opts)) (r # rs))
            else map (map (cellValue opts)) (r # rs)))"
  by (simp add: extractRows_later Let_def)

lemma numberFrom_length [simp]: "length (numberFrom k rs) = length rs"
  by (induction rs arbitrary: k) simp_all

lemma numberFrom_nth:
  "n < length rs \<Longrightarrow> numberFrom k rs ! n = toString (k + n + 1) # rs ! n"
proof (induction rs arbitrary: k n)
  case Nil
  then show ?case by simp
next
  case (Cons r rs)
  show ?case
  proof (cases n)
    case 0
    then show ?thesis by simp
  next
    case (Suc m)
    with Cons.prems have "m < length rs" by simp
    from Cons.IH [OF this, of "k + 1"] Suc show ?thesis by simp
  qed
qed

lemma tableDataOf_headers:
  "headers (tableDataOf now rws opts) =
     (case rws of
        [] \<Rightarrow> []
      | r # rs \<Rightarrow>
          if (\<exists>c \<in> set r. isTh c) \<or> includeHeaders opts
          then (if includeRowNumbers opts \<and> r \<noteq> [] then [[HASH]] else []) @ map (cellValue opts) r
          else [])"
proof (cases rws)
  case Nil
  then show ?thesis by (simp add: tableDataOf_def)
next
  case (Cons r rs)
  then show ?thesis
    by (simp add: tableDataOf_def extractRows_first Let_def del: extractRows.simps)
qed

lemma tableDataOf_rows:
  "rows (tableDataOf now rws opts) =
     (let data = map (map (cellValue opts))
                   (case rws of
                      [] \<Rightarrow> []
                    | r # rs \<Rightarrow> if (\<exists>c \<in> set r. isTh c) \<or> includeHeaders opts then rs else r # rs)
      in if includeRowNumbers opts then numberFrom 0 data else data)"
proof (cases rws)
  case Nil
  then show ?thesis by (simp add: tableDataOf_def)
next
  case (Cons r rs)
  then show ?thesis
    by (simp add: tableDataOf_def extractRows_first Let_def del: extractRows.simps)
qed

lemma tableContainerOf_sample: "tableContainerOf sampleDocument 1 = Some 0"
  by (simp add: tableContainerOf_def closest_def sampleDocument_def isScrollContainerClass_def
      js_def eval_nat_numeral)

lemmas eval_defs =
  tableDataOf_def cellValue_def trim_def isWhiteSpace_def hasCurrency_def currencyMatch_def
  sampleDocument_def sampleOptions_def js_def char_defs Let_def

text \<open>
  Claim C1.  For every document, table, options value and exit path of extractTableData
  (it returns, or the \<open>try\<close> block raises after any number of its assignments), the
  document after the call is the document before it.  In particular the inline width and
  max-width of the table, and the inline overflow and the scroll offset of its container,
  have their values from before the call; an overflow that was the empty string is the
  empty string again; and an exception raised in the block is the one that leaves the call.
\<close>

theorem extractTableData_restores_ui_state:
  "(case extractTableData now interrupt d table opts of
      (result, d') \<Rightarrow>
        d' = d
        \<and> style_width (d' ! table) = style_width (d ! table)
        \<and> style_maxWidth (d' ! table) = style_maxWidth (d ! table)
        \<and> (\<forall>c. tableContainerOf d table = Some c \<longrightarrow>
               style_overflow (d' ! c) = style_overflow (d ! c)
               \<and> scrollLeft (d' ! c) = scrollLeft (d ! c)
               \<and> (style_overflow (d ! c) = [] \<longrightarrow> style_overflow (d' ! c) = []))
        \<and> (\<forall>k e. interrupt = Some (k, e) \<longrightarrow> result = Inl e))"
proof -
  have "snd (extractTableData now interrupt d table opts) = d"
    by (rule extractTableData_frame)
  moreover have "\<forall>k e. interrupt = Some (k, e) \<longrightarrow>
      fst (extractTableData now interrupt d table opts) = Inl e"
    by (simp add: extractTableData_def Let_def)
  ultimately show ?thesis
    by (cases "extractTableData now interrupt d table opts") auto
qed

text \<open>
  The run of the spec: the container has overflow \<open>hidden\<close> and scroll offset 40, and the
  extraction is interrupted after three assignments, when the overflow is \<open>visible\<close> and
  the offset 0.
\<close>

theorem extractTableData_restores_ui_state_witness:
  "tableContainerOf sampleDocument 1 = Some 0
   \<and> style_overflow (fold (\<lambda>step s. step s)
         (take 3 (tryBlockMutations (Some 0) 1)) sampleDocument ! 0) = js ''visible''
   \<and> scrollLeft (fold (\<lambda>step s. step s)
         (take 3 (tryBlockMutations (Some 0) 1)) sampleDocument ! 0) = 0
   \<and> fst (extractTableData (js ''now'') (Some (3, Error (js ''boom''))) sampleDocument 1 sampleOptions)
       = Inl (Error (js ''boom''))
   \<and> style_overflow (snd (extractTableData (js ''now'') (Some (3, Error (js ''boom'')))
         sampleDocument 1 sampleOptions) ! 0) = js ''hidden''
   \<and> scrollLeft (snd (extractTableData (js ''now'') (Some (3, Error (js ''boom'')))
         sampleDocument 1 sampleOptions) ! 0) = 40
   \<and> style_width (snd (extractTableData (js ''now'') (Some (3, Error (js ''boom'')))
         sampleDocument 1 sampleOptions) ! 1) = js ''100%''"
  using extractTableData_restores_ui_state [where now = "js ''now''"
      and interrupt = "Some (3, Error (js ''boom''))"
      and d = sampleDocument and table = 1 and opts = sampleOptions]
    tableContainerOf_sample
  by (auto simp: sampleDocument_def tryBlockMutations_def eval_nat_numeral split: prod.splits)

text \<open>
  Claim C7.  With includeRowNumbers on, the extraction of a table returns, and compared
  with the extraction of the same table with includeRowNumbers off: when the headers are
  not empty they are the label \<open>#\<close> followed by the headers without numbering, and when
  they are empty they stay empty; there are as many data rows, and the data row at
  position \<open>n\<close> (from 0) is the decimal numeral of \<open>n + 1\<close> followed by the row without
  numbering.
\<close>

theorem extractTableData_row_numbers:
  assumes "table < length d" and "includeRowNumbers opts"
  shows "\<exists>numbered plain.
      fst (extractTableData now None d table opts) = Inr numbered
      \<and> fst (extractTableData now None d table (opts\<lparr>includeRowNumbers := False\<rparr>)) = Inr plain
      \<and> headers numbered = (if headers plain \<noteq> [] then [HASH] # headers plain else [])
      \<and> length (rows numbered) = length (rows plain)
      \<and> (\<forall>n < length (rows plain). rows numbered ! n = toString (n + 1) # rows plain ! n)"
proof -
  let ?rws = "trs (d ! table)"
  let ?numbered = "tableDataOf now ?rws opts"
  let ?plain = "tableDataOf now ?rws (opts\<lparr>includeRowNumbers := False\<rparr>)"
  from assms have "fst (extractTableData now None d table opts) = Inr ?numbered"
    and "fst (extractTableData now None d table (opts\<lparr>includeRowNumbers := False\<rparr>)) = Inr ?plain"
    by (simp_all add: extractTableData_result)
  moreover from assms(2)
  have "headers ?numbered = (if headers ?plain \<noteq> [] then [HASH] # headers ?plain else [])"
    by (cases ?rws) (simp_all add: tableDataOf_headers)
  moreover from assms(2) have "length (rows ?numbered) = length (rows ?plain)"
    by (cases ?rws) (simp_all add: tableDataOf_rows Let_def)
  moreover from assms(2)
  have "\<forall>n < length (rows ?plain). rows ?numbered ! n = toString (n + 1) # rows ?plain ! n"
    by (cases ?rws) (simp_all add: tableDataOf_rows Let_def numberFrom_nth)
  ultimately show ?thesis by blast
qed

theorem extractTableData_row_numbers_witness:
  "1 < length sampleDocument \<and> includeRowNumbers sampleOptions
   \<and> fst (extractTableData (js ''now'') None sampleDocument 1 sampleOptions)
       = Inr \<lparr>name = [], headers = [js ''#'', js ''Name'', js ''Revenue''],
              rows = [[js ''1'', js ''Alice'', js ''1,200''], [js ''2'', js ''Bob'', js ''800'']],
              metadata = None\<rparr>
   \<and> fst (extractTableData (js ''now'') None sampleDocument 1
            (sampleOptions\<lparr>includeRowNumbers := False\<rparr>))
       = Inr \<lparr>name = [], headers = [js ''Name'', js ''Revenue''],
              rows = [[js ''Alice'', js ''1,200''], [js ''Bob'', js ''800'']],
              metadata = None\<rparr>"
proof -
  have h: "1 < length sampleDocument" "includeRowNumbers sampleOptions"
    by (simp_all add: sampleDocument_def sampleOptions_def)
  from extractTableData_row_numbers [OF h, of "js ''now''"] h show ?thesis
    by (simp add: extractTableData_result) (simp add: eval_defs toString.simps)
qed

text \<open>
  Claim C10.  When the first row of a table has a header cell and includeHeaders is off,
  the extraction returns with the values of the first row as the headers (after the label
  \<open>#\<close> when rows are numbered) and with the data rows made of the later rows only; and
  the CSV content made from it is the newline-joined lines of these data rows: it has no
  line for the first row.
\<close>

theorem first_header_row_omitted_without_includeHeaders:
  assumes "table < length d"
    and "trs (d ! table) = r0 # rest"
    and "\<exists>c \<in> set r0. isTh c"
    and "\<not> includeHeaders opts"
  shows "\<exists>td.
      fst (extractTableData now None d table opts) = Inr td
      \<and> headers td = (if includeRowNumbers opts \<and> r0 \<noteq> [] then [[HASH]] else [])
                       @ map (cellValue opts) r0
      \<and> rows td = (if includeRowNumbers opts then numberFrom 0 (map (map (cellValue opts)) rest)
                   else map (map (cellValue opts)) rest)
      \<and> createCSVContent td opts =
          joinWith [NL] (map (\<lambda>row. joinWith [COMMA] (map escapeCSVValue row)) (rows td))"
proof -
  let ?td = "tableDataOf now (r0 # rest) opts"
  from assms have "fst (extractTableData now None d table opts) = Inr ?td"
    by (simp add: extractTableData_result)
  moreover from assms(3,4)
  have "headers ?td = (if includeRowNumbers opts \<and> r0 \<noteq> [] then [[HASH]] else [])
                       @ map (cellValue opts) r0"
    by (simp add: tableDataOf_headers)
  moreover from assms(3,4)
  have "rows ?td = (if includeRowNumbers opts then numberFrom 0 (map (map (cellValue opts)) rest)
                   else map (map (cellValue opts)) rest)"
    by (simp add: tableDataOf_rows Let_def)
  moreover from assms(4)
  have "createCSVContent ?td opts =
          joinWith [NL] (map (\<lambda>row. joinWith [COMMA] (map escapeCSVValue row)) (rows ?td))"
    by (simp add: createCSVContent_def)
  ultimately show ?thesis by blast
qed

theorem first_header_row_omitted_without_includeHeaders_witness:
  "1 < length sampleDocument
   \<and> (\<exists>c \<in> set (hd (trs (sampleDocument ! 1))). isTh c)
   \<and> \<not> includeHeaders sampleOptions
   \<and> (\<exists>td. fst (extractTableData (js ''now'') None sampleDocument 1 sampleOptions) = Inr td
          \<and> headers td = [js ''#'', js ''Name'', js ''Revenue'']
          \<and> createCSVContent td sampleOptions
              = js ''1,Alice,'' @ [DQUOTE] @ js ''1,200'' @ [DQUOTE, NL] @ js ''2,Bob,800'')"
proof -
  have h: "1 < length sampleDocument"
    "trs (sampleDocument ! 1) = hd (trs (sampleDocument ! 1)) # tl (trs (sampleDocument ! 1))"
    "\<exists>c \<in> set (hd (trs (sampleDocument ! 1))). isTh c"
    "\<not> includeHeaders sampleOptions"
    by (simp_all add: sampleDocument_def sampleOptions_def)
  from first_header_row_omitted_without_includeHeaders [OF h, of "js ''now''"] h(1,3,4)
  show ?thesis
    by (simp add: extractTableData_result)
       (simp add: eval_defs toString.simps createCSVContent_def escapeCSVValue_def)
qed

lemma extractTableData_eq:
  assumes "table < length d"
  shows "extractTableData now interrupt d table opts =
     ((case interrupt of Some (k, e) \<Rightarrow> Inl e
       | None \<Rightarrow> Inr (tableDataOf now (trs (d ! table)) opts)), d)"
  using extractTableData_result [OF assms, of now interrupt opts]
    extractTableData_frame [of now interrupt d table opts]
  by (cases "extractTableData now interrupt d table opts") simp

text \<open>
  Claim C8 fails on the code.  The cell below has the markup
  \<open><span title="a\b" data-symbol="$">100</span>\<close> and the text \<open>100\<close>: the markup
  contains a currency symbol, the first one being the dollar sign, and the trimmed text is
  not empty and contains none.  With preserveFormatting on, the extracted value is the
  text after a backslash, not after the dollar sign: the pattern of the source also
  matches a backslash, and the markup has one before the dollar sign.
\<close>

theorem cellValue_prepends_backslash_before_currency:
  "hasCurrency (js ''<span title='' @ [DQUOTE] @ js ''a'' @ [BACKSLASH] @ js ''b'' @ [DQUOTE]
        @ js '' data-symbol='' @ [DQUOTE, DOLLAR, DQUOTE] @ js ''>100</span>'')
   \<and> trim (js ''100'') = js ''100'' \<and> \<not> hasCurrency (js ''100'')
   \<and> find (\<lambda>c. c = DOLLAR \<or> c = EURO \<or> c = POUND)
        (js ''<span title='' @ [DQUOTE] @ js ''a'' @ [BACKSLASH] @ js ''b'' @ [DQUOTE]
          @ js '' data-symbol='' @ [DQUOTE, DOLLAR, DQUOTE] @ js ''>100</span>'') = Some DOLLAR
   \<and> cellValue
        \<lparr>includeHeaders = True, preserveFormatting = True, includeRowNumbers = False,
         separateSheets = False, includeMetadata = False\<rparr>
        \<lparr>isTh = False, textContent = js ''100'',
         innerHTML = js ''<span title='' @ [DQUOTE] @ js ''a'' @ [BACKSLASH] @ js ''b'' @ [DQUOTE]
           @ js '' data-symbol='' @ [DQUOTE, DOLLAR, DQUOTE] @ js ''>100</span>''\<rparr>
       = [BACKSLASH] @ js ''100''
   \<and> [BACKSLASH] @ js ''100'' \<noteq> [DOLLAR] @ js ''100''"
  by (simp add: eval_defs)

text \<open>
  What the code does for the markup without a backslash: there the value is as claim C8
  says, the first currency symbol of the markup before the trimmed text when the markup
  has a currency symbol and the non-empty trimmed text has none, and the trimmed text in
  every other case.
\<close>

lemma currencyMatch_without_backslash:
  "BACKSLASH \<notin> set html \<Longrightarrow>
     currencyMatch html = find (\<lambda>x. x = DOLLAR \<or> x = EURO \<or> x = POUND) html"
  unfolding currencyMatch_def by (induction html) auto

lemma cellValue_without_backslash:
  assumes "preserveFormatting opts" and "BACKSLASH \<notin> set (innerHTML c)"
  shows "cellValue opts c =
     (if hasCurrency (innerHTML c) \<and> trim (textContent c) \<noteq> []
          \<and> \<not> hasCurrency (trim (textContent c))
      then the (find (\<lambda>x. x = DOLLAR \<or> x = EURO \<or> x = POUND) (innerHTML c))
             # trim (textContent c)
      else trim (textContent c))"
proof -
  from assms(2) have "currencyMatch (innerHTML c)
      = find (\<lambda>x. x = DOLLAR \<or> x = EURO \<or> x = POUND) (innerHTML c)"
    by (rule currencyMatch_without_backslash)
  moreover have "hasCurrency (innerHTML c) \<Longrightarrow>
     find (\<lambda>x. x = DOLLAR \<or> x = EURO \<or> x = POUND) (innerHTML c) \<noteq> None"
    by (auto simp: hasCurrency_def find_None_iff)
  ultimately show ?thesis
    using assms(1) by (auto simp: cellValue_def Let_def hasCurrency_def split: option.splits)
qed

section \<open>Properties of the orchestrator\<close>

lemma extractAll_none:
  "\<forall>t \<in> set ts. dt_element t = None \<Longrightarrow> extractAll ev opts ts d = (Inr [], d)"
  by (induction ts) simp_all

lemma exportBody_keeps:
  "exportBody ev config s d = (r, s', d') \<Longrightarrow>
     isExporting s' = isExporting s \<and> setIsExportingCalls s' = setIsExportingCalls s
     \<and> consoleErrors s' = consoleErrors s"
  by (auto simp: exportBody_def exportToPDF_def
      split: prod.splits sum.splits if_splits export_format.splits option.splits)

lemmas run_defs =
  exportDisplayedData_def exportBody_def sampleConfig_def sampleTable_def idleState_def
  quietEnv_def

text \<open>
  Claim C5.  When every entry of the tables list has a null element, exportDisplayedData
  rejects with the error ``No table data to export'', and neither downloadCSV nor
  \<open>pdf.save\<close> has been called; the document is untouched.
\<close>

theorem exportDisplayedData_rejects_empty_export:
  assumes "\<forall>t \<in> set (tables config). dt_element t = None"
  shows "(case exportDisplayedData ev config s d of
      (r, s', d') \<Rightarrow>
        r = Inl (Error (js ''No table data to export''))
        \<and> csvDownloads s' = csvDownloads s \<and> pdfSaves s' = pdfSaves s \<and> d' = d)"
proof -
  from assms have "filter (\<lambda>t. dt_element t \<noteq> None) (tables config) = []"
    by (simp add: filter_empty_conv)
  then show ?thesis
    by (simp add: exportDisplayedData_def exportBody_def Let_def)
qed

theorem exportDisplayedData_rejects_empty_export_witness:
  "map dt_element (tables (sampleConfig\<lparr>tables := [sampleTable\<lparr>dt_element := None\<rparr>]\<rparr>))
     = [None]
   \<and> exportDisplayedData quietEnv (sampleConfig\<lparr>tables := [sampleTable\<lparr>dt_element := None\<rparr>]\<rparr>)
       idleState sampleDocument
     = (Inl (Error (js ''No table data to export'')),
        \<lparr>isExporting = False, setIsExportingCalls = [True, False],
         consoleErrors = [Error (js ''No table data to export'')],
         csvDownloads = [], pdfSaves = []\<rparr>,
        sampleDocument)"
proof -
  have h: "\<forall>t \<in> set (tables (sampleConfig\<lparr>tables := [sampleTable\<lparr>dt_element := None\<rparr>]\<rparr>)).
      dt_element t = None"
    by simp
  from exportDisplayedData_rejects_empty_export
    [OF h, where ev = quietEnv and s = idleState and d = sampleDocument] h
  show ?thesis
    by (simp add: run_defs Let_def)
qed

text \<open>
  Claim C9.  For every configuration, exportDisplayedData calls \<open>setIsExporting(true)\<close>
  first and \<open>setIsExporting(false)\<close> last, so the flag is false when the operation exits;
  its outcome is the outcome of its \<open>try\<close> block, so a failure reaches the caller
  unchanged; and a failure has been passed to \<open>console.error\<close> once, a success not.
\<close>

theorem exportDisplayedData_resets_flag_and_rethrows:
  "(case exportDisplayedData ev config s d of
      (r, s', d') \<Rightarrow>
        setIsExportingCalls s' = setIsExportingCalls s @ [True, False]
        \<and> isExporting s' = False
        \<and> r = fst (exportBody ev config
                 (s\<lparr>isExporting := True, setIsExportingCalls := setIsExportingCalls s @ [True]\<rparr>) d)
        \<and> (case r of
             Inl e \<Rightarrow> consoleErrors s' = consoleErrors s @ [e]
           | Inr u \<Rightarrow> consoleErrors s' = consoleErrors s))"
proof -
  let ?s1 = "s\<lparr>isExporting := True, setIsExportingCalls := setIsExportingCalls s @ [True]\<rparr>"
  obtain r s2 d' where b: "exportBody ev config ?s1 d = (r, s2, d')"
    by (cases "exportBody ev config ?s1 d") auto
  from exportBody_keeps [OF b] show ?thesis
    by (simp add: exportDisplayedData_def Let_def b split: sum.splits)
qed

text \<open>
  Two runs on the sample document: one whose extraction is interrupted, which rejects with
  the exception of the extraction, logs it and downloads nothing; and one that succeeds
  and downloads one CSV document.  Both end with the flag reset.
\<close>

theorem exportDisplayedData_resets_flag_and_rethrows_witness:
  "exportDisplayedData (quietEnv\<lparr>interruptOf := (\<lambda>el. Some (2, Error (js ''boom'')))\<rparr>)
       sampleConfig idleState sampleDocument
     = (Inl (Error (js ''boom'')),
        \<lparr>isExporting = False, setIsExportingCalls = [True, False],
         consoleErrors = [Error (js ''boom'')], csvDownloads = [], pdfSaves = []\<rparr>,
        sampleDocument)
   \<and> exportDisplayedData quietEnv sampleConfig idleState sampleDocument
     = (Inr (),
        \<lparr>isExporting = False, setIsExportingCalls = [True, False],
         consoleErrors = [],
         csvDownloads =
           [(js ''Table A'' @ [NL] @ js ''1,Alice,'' @ [DQUOTE] @ js ''1,200'' @ [DQUOTE, NL]
               @ js ''2,Bob,800'' @ [NL],
             js ''sales.csv'')],
         pdfSaves = []\<rparr>,
        sampleDocument)"
proof -
  have len: "Suc 0 < length sampleDocument"
    by (simp add: sampleDocument_def)
  note t1 = exportDisplayedData_resets_flag_and_rethrows
    [where ev = "quietEnv\<lparr>interruptOf := (\<lambda>el. Some (2, Error (js ''boom'')))\<rparr>"
      and config = sampleConfig and s = idleState and d = sampleDocument]
  note t2 = exportDisplayedData_resets_flag_and_rethrows
    [where ev = quietEnv and config = sampleConfig and s = idleState and d = sampleDocument]
  from t1 t2 show ?thesis
    by (simp add: run_defs Let_def extractTableData_eq [OF len])
       (simp add: eval_defs toString.simps exportToCSV_def createCSVContent_def escapeCSVValue_def)
qed

section \<open>Properties of the table discovery\<close>

lemma walkSiblings_char:
  "walkSiblings sibs k tn prev =
     (let ss = take (5 - k) sibs
      in ((case find (\<lambda>s. isHeadingTag (tagName s)) ss of
             Some h \<Rightarrow> if trim (siblingText h) \<noteq> [] then trim (siblingText h) else tn
           | None \<Rightarrow> tn),
          prev @ filter isShortText
                   (map (\<lambda>s. trim (siblingText s))
                      (takeWhile (\<lambda>s. \<not> isHeadingTag (tagName s)) ss))))"
proof (induction sibs arbitrary: k prev)
  case Nil
  show ?case by simp
next
  case (Cons c rest)
  show ?case
  proof (cases "k < 5")
    case False
    then show ?thesis by simp
  next
    case True
    then have "5 - k = Suc (5 - (k + 1))"
      by arith
    then have t: "take (5 - k) (c # rest) = c # take (5 - (k + 1)) rest"
      by (simp only: take_Suc_Cons)
    show ?thesis
      using True by (simp add: t Cons.IH Let_def isShortText_def del: take_Suc_Cons)
  qed
qed

lemma startsWith_fallback: "startsWith (fallbackName index) (js ''Table '')"
  by (simp add: startsWith_def fallbackName_def js_def)

lemma tableNameOf_char:
  "tableNameOf index node =
     (case tn_caption node of
        Some c \<Rightarrow> if trim c \<noteq> [] then trim c else fallbackName index
      | None \<Rightarrow>
          (let tableName1 = (case nearestHeading node of
                               Some h \<Rightarrow> if trim (siblingText h) \<noteq> [] then trim (siblingText h)
                                         else fallbackName index
                             | None \<Rightarrow> fallbackName index)
           in if startsWith tableName1 (js ''Table '') \<and> shortSnippets node \<noteq> []
              then last (shortSnippets node)
              else tableName1))"
  by (simp add: tableNameOf_def walkSiblings_char Let_def fallbackName_def nearestHeading_def
      shortSnippets_def inspectedSiblings_def last_conv_nth split: option.splits)

lemma scanForTables_nth:
  "index < length nodes \<Longrightarrow>
     scanForTables clock nodes ! index =
       \<lparr>dt_id = js ''table-'' @ toString index @ js ''-'' @ toString (clock index),
        dt_name = tableNameOf index (nodes ! index),
        dt_element = Some (tn_element (nodes ! index)),
        dt_rowCount = length (tn_rowCellCounts (nodes ! index)),
        dt_columnCount = (case tn_rowCellCounts (nodes ! index) of [] \<Rightarrow> 0 | c # cs \<Rightarrow> c),
        dt_isVisible = nodeIsVisible (nodes ! index)\<rparr>"
  by (simp add: scanForTables_def nth_enumerate_eq)

lemmas node_defs = tableNode_def captionedNode_def emptyCaptionNode_def headedNode_def
  twoSnippetsNode_def

text \<open>
  Claim C6, as the specification states it, fails on the code.  A table with an empty
  caption that follows the heading \<open>Revenue\<close> is named \<open>Table 1\<close>, where the chain of
  the claim goes on to the heading; and a table that follows the short texts \<open>Near\<close>
  (nearest) and \<open>Far\<close> is named \<open>Far\<close>, where the claim names it \<open>Near\<close>.
\<close>

theorem scanForTables_naming_chain_counterexample:
  "tableNameOf 0 emptyCaptionNode = js ''Table 1''
   \<and> specTableName 0 emptyCaptionNode = js ''Revenue''
   \<and> tableNameOf 0 emptyCaptionNode \<noteq> specTableName 0 emptyCaptionNode
   \<and> tableNameOf 0 twoSnippetsNode = js ''Far''
   \<and> specTableName 0 twoSnippetsNode = js ''Near''
   \<and> tableNameOf 0 twoSnippetsNode \<noteq> specTableName 0 twoSnippetsNode"
  by code_simp

text \<open>
  Claim C6, amended.  For the table at position \<open>index\<close> of a scan:
  (1) when it has a caption, its name is the trimmed text of the caption, or \<open>Table N\<close>
  with \<open>N = index + 1\<close> when that text is empty; the siblings play no part.
  (2) When it has no caption and the first heading among its five nearest preceding
  siblings has a non-empty trimmed text, its name is that text (the case of a heading
  text starting with \<open>Table \<close> behind a short text is left open).
  (3) When it has no caption and there is no heading among these siblings, or the heading
  has an empty text: its name is the last accumulated snippet, that is the short text
  farthest from the table among the siblings before the heading, when there is one; and
  (4) \<open>Table N\<close> otherwise.
\<close>

theorem scanForTables_naming_chain:
  assumes "index < length nodes"
  shows "(let node = nodes ! index; assigned = dt_name (scanForTables clock nodes ! index)
     in (\<forall>c. tn_caption node = Some c \<longrightarrow>
           assigned = (if trim c \<noteq> [] then trim c else js ''Table '' @ toString (index + 1)))
       \<and> (tn_caption node = None \<longrightarrow>
           (\<forall>h. nearestHeading node = Some h \<and> trim (siblingText h) \<noteq> []
                 \<and> \<not> (startsWith (trim (siblingText h)) (js ''Table '') \<and> shortSnippets node \<noteq> [])
              \<longrightarrow> assigned = trim (siblingText h))
           \<and> ((nearestHeading node = None
                \<or> (\<exists>h. nearestHeading node = Some h \<and> trim (siblingText h) = []))
              \<longrightarrow> assigned = (if shortSnippets node \<noteq> [] then last (shortSnippets node)
                               else js ''Table '' @ toString (index + 1)))))"
  using assms startsWith_fallback [of index]
  by (auto simp: scanForTables_nth tableNameOf_char Let_def fallbackName_def)

theorem scanForTables_naming_chain_witness:
  "(1::nat) < length [captionedNode, headedNode, twoSnippetsNode, tableNode 5]
   \<and> tn_caption ([captionedNode, headedNode, twoSnippetsNode, tableNode 5] ! 1) = None
   \<and> nearestHeading ([captionedNode, headedNode, twoSnippetsNode, tableNode 5] ! 1)
       = Some \<lparr>tagName = js ''H2'', siblingText = js ''Revenue''\<rparr>
   \<and> map dt_name (scanForTables fixedClock [captionedNode, headedNode, twoSnippetsNode, tableNode 5])
       = [js ''Sales by region'', js ''Revenue'', js ''Far'', js ''Table 4'']"
proof -
  have names: "map dt_name (scanForTables fixedClock [captionedNode, headedNode, twoSnippetsNode, tableNode 5])
       = [js ''Sales by region'', js ''Revenue'', js ''Far'', js ''Table 4'']"
    by code_simp
  have heading: "nearestHeading ([captionedNode, headedNode, twoSnippetsNode, tableNode 5] ! 1)
       = Some \<lparr>tagName = js ''H2'', siblingText = js ''Revenue''\<rparr>"
    by code_simp
  have caption: "tn_caption ([captionedNode, headedNode, twoSnippetsNode, tableNode 5] ! 1) = None"
    by (simp add: node_defs)
  have len: "(1::nat) < length [captionedNode, headedNode, twoSnippetsNode, tableNode 5]"
    by simp
  from scanForTables_naming_chain [OF len, of fixedClock] names heading caption len show ?thesis
    by simp
qed

section \<open>Properties of the tab-aware collector\<close>

lemma fold_preserves:
  assumes "P s" and "\<And>x s. x \<in> set xs \<Longrightarrow> P s \<Longrightarrow> P (f x s)"
  shows "P (fold f xs s)"
  using assms by (induction xs arbitrary: s) simp_all

lemma collectOne_inv: "scanInv st \<Longrightarrow> scanInv (collectOne prefix t st)"
  by (auto simp: scanInv_def collectOne_def split: option.splits)

lemma collectOne_seen_mono: "seen st \<subseteq> seen (collectOne prefix t st)"
  by (auto simp: collectOne_def split: option.splits)

lemma collectOne_seen: "dt_element t = Some el \<Longrightarrow> el \<in> seen (collectOne prefix t st)"
  by (auto simp: collectOne_def split: option.splits)

lemma fold_collectOne_seen_mono: "seen st \<subseteq> seen (fold (collectOne prefix) ts st)"
proof (induction ts arbitrary: st)
  case Nil
  show ?case by simp
next
  case (Cons t ts)
  have "seen st \<subseteq> seen (collectOne prefix t st)" by (rule collectOne_seen_mono)
  also have "\<dots> \<subseteq> seen (fold (collectOne prefix) ts (collectOne prefix t st))" by (rule Cons.IH)
  finally show ?case by simp
qed

lemma fold_collectOne_seen:
  "t \<in> set ts \<Longrightarrow> dt_element t = Some el \<Longrightarrow> el \<in> seen (fold (collectOne prefix) ts st)"
proof (induction ts arbitrary: st)
  case Nil
  then show ?case by simp
next
  case (Cons u ts)
  show ?case
  proof (cases "t = u")
    case True
    with Cons.prems have "el \<in> seen (collectOne prefix u st)" by (simp add: collectOne_seen)
    with fold_collectOne_seen_mono [of "collectOne prefix u st" prefix ts] show ?thesis by auto
  next
    case False
    with Cons show ?thesis by simp
  qed
qed

lemma collectVisible_inv: "scanInv st \<Longrightarrow> scanInv (collectVisible br root prefix ctx st)"
  unfolding collectVisible_def Let_def
  by (rule fold_preserves [where P = scanInv]) (simp_all add: collectOne_inv)

lemma processTabLevel_inv_aux:
  "6 - level = n \<Longrightarrow> scanInv st \<Longrightarrow> scanInv (processTabLevel br root searchRoot levelPrefix level st)"
proof (induction n arbitrary: level st searchRoot levelPrefix)
  case 0
  then have "level > 5" by simp
  with 0 show ?case
    by (subst processTabLevel.simps) (simp add: scanInv_def)
next
  case (Suc n)
  then have le: "\<not> level > 5" and next_level: "6 - (level + 1) = n" by simp_all
  have step: "scanInv
      (let subTabName = subTabNameOf (readTab br (world st1) trigger);
           fullTabName = (if levelPrefix \<noteq> [] then levelPrefix @ js '' > '' @ subTabName
                          else subTabName)
       in case activate br (world st1) trigger of
            (Some e, w1) \<Rightarrow>
              st1\<lparr>world := w1,
                  warnings := warnings st1 @
                    [js ''Level '' @ toString level @ js '': Sub-tab switch failed for ''
                       @ fullTabName @ js '':'']\<rparr>
          | (None, w1) \<Rightarrow>
              (let w2 = waitFor br (waitFor br w1 1200) 300;
                   st2 = collectVisible br root (Some fullTabName) (Some searchRoot)
                           (st1\<lparr>world := w2\<rparr>)
               in case activePanelOf br (world st2) trigger of
                    Some panel \<Rightarrow>
                      processTabLevel br root panel fullTabName (level + 1) st2
                  | None \<Rightarrow> st2))"
    if "scanInv st1" for trigger st1
  proof -
    have w: "scanInv (st1\<lparr>world := w\<rparr>)" for w
      using that by (simp add: scanInv_def)
    have ww: "scanInv (st1\<lparr>world := w, warnings := ws\<rparr>)" for w ws
      using that by (simp add: scanInv_def)
    have ih: "scanInv s \<Longrightarrow> scanInv (processTabLevel br root panel pre (level + 1) s)"
      for s panel pre
      by (rule Suc.IH [OF next_level])
    obtain err w1 where a: "activate br (world st1) trigger = (err, w1)"
      by (cases "activate br (world st1) trigger")
    show ?thesis
    proof (cases err)
      case (Some e)
      with a show ?thesis by (simp add: Let_def ww)
    next
      case None
      let ?full = "if levelPrefix \<noteq> []
        then levelPrefix @ js '' > '' @ subTabNameOf (readTab br (world st1) trigger)
        else subTabNameOf (readTab br (world st1) trigger)"
      let ?st2 = "collectVisible br root (Some ?full) (Some searchRoot)
        (st1\<lparr>world := waitFor br (waitFor br w1 1200) 300\<rparr>)"
      have inv2: "scanInv ?st2"
        by (rule collectVisible_inv [OF w])
      show ?thesis
      proof (cases "activePanelOf br (world ?st2) trigger")
        case None2: None
        with a None inv2 show ?thesis by (simp add: Let_def)
      next
        case (Some panel)
        have "scanInv (processTabLevel br root panel ?full (level + 1) ?st2)"
          by (rule ih [OF inv2])
        with a None Some show ?thesis by (simp add: Let_def)
      qed
    qed
  qed
  have "scanInv (fold (\<lambda>trigger st1.
                (let subTabName = subTabNameOf (readTab br (world st1) trigger);
                     fullTabName = (if levelPrefix \<noteq> [] then levelPrefix @ js '' > '' @ subTabName
                                    else subTabName)
                 in case activate br (world st1) trigger of
                      (Some e, w1) \<Rightarrow>
                        st1\<lparr>world := w1,
                            warnings := warnings st1 @
                              [js ''Level '' @ toString level @ js '': Sub-tab switch failed for ''
                                 @ fullTabName @ js '':'']\<rparr>
                    | (None, w1) \<Rightarrow>
                        (let w2 = waitFor br (waitFor br w1 1200) 300;
                             st2 = collectVisible br root (Some fullTabName) (Some searchRoot)
                                     (st1\<lparr>world := w2\<rparr>)
                         in case activePanelOf br (world st2) trigger of
                              Some panel \<Rightarrow>
                                processTabLevel br root panel fullTabName (level + 1) st2
                            | None \<Rightarrow> st2)))
          (inactiveTriggers br (world st) searchRoot) st)"
    by (rule fold_preserves [where P = scanInv, OF Suc.prems(2)]) (rule step)
  with le show ?case
    by (subst processTabLevel.simps) simp
qed

lemma processTabLevel_inv:
  "scanInv st \<Longrightarrow> scanInv (processTabLevel br root searchRoot levelPrefix level st)"
  by (rule processTabLevel_inv_aux [OF refl])

lemma restoreTrigger_inv: "scanInv st \<Longrightarrow> scanInv (restoreTrigger br trigger st)"
  by (auto simp: restoreTrigger_def scanInv_def split: prod.splits option.splits)

lemma scan_inv: "scanInv (scanForTablesIncludingSubTabs br root w0)"
proof -
  have 0: "scanInv \<lparr>world = w0, collected = [], seen = {}, warnings = []\<rparr>"
    by (simp add: scanInv_def)
  have w: "scanInv st \<Longrightarrow> scanInv (st\<lparr>world := w\<rparr>)" for st :: "'a scan_state" and w
    by (simp add: scanInv_def)
  have 1: "scanInv (collectVisible br root (Some (js ''Initial Active Content'')) None
      \<lparr>world = w0, collected = [], seen = {}, warnings = []\<rparr>)" (is "scanInv ?st1")
    by (rule collectVisible_inv [OF 0])
  have 2: "scanInv (processTabLevel br root root [] 0 ?st1)" (is "scanInv ?st2")
    by (rule processTabLevel_inv [OF 1])
  have 3: "scanInv (fold (\<lambda>activeContent st.
                        processTabLevel br root activeContent (js ''Active Tab Content'') 1 st)
                  (activeTabContents br (world ?st2) root) ?st2)" (is "scanInv ?st3")
    by (rule fold_preserves [where P = scanInv, OF 2]) (rule processTabLevel_inv)
  have 4: "scanInv (fold (restoreTrigger br) (rev (getAllActiveTriggers br w0 root)) ?st3)"
    by (rule fold_preserves [where P = scanInv, OF 3]) (rule restoreTrigger_inv)
  show ?thesis
    unfolding scanForTablesIncludingSubTabs_def Let_def
    by (intro collectVisible_inv w 4)
qed

lemma filter_unique:
  "distinct (map f xs) \<Longrightarrow> y \<in> set (map f xs) \<Longrightarrow> length (filter (\<lambda>x. f x = y) xs) = 1"
proof (induction xs)
  case Nil
  then show ?case by simp
next
  case (Cons x xs)
  show ?case
  proof (cases "f x = y")
    case True
    with Cons.prems have "y \<notin> f ` set xs" by auto
    then have "filter (\<lambda>x. f x = y) xs = []" by (auto simp: filter_empty_conv)
    with True show ?thesis by simp
  next
    case False
    with Cons show ?thesis by auto
  qed
qed

lemma fold_collectOne_world [simp]: "world (fold (collectOne prefix) ts st) = world st"
  by (induction ts arbitrary: st) (simp_all add: collectOne_def split: option.splits)

lemma collectVisible_world [simp]: "world (collectVisible br root prefix ctx st) = world st"
  by (simp add: collectVisible_def Let_def)

lemma collectVisible_seen:
  assumes "node \<in> set (queryTables br (world st) (case ctx of Some c \<Rightarrow> c | None \<Rightarrow> root))"
    and "nodeIsVisible node" and "tn_rowCellCounts node \<noteq> []"
  shows "tn_element node \<in> seen (collectVisible br root prefix ctx st)"
proof -
  let ?nodes = "queryTables br (world st) (case ctx of Some c \<Rightarrow> c | None \<Rightarrow> root)"
  from assms(1) obtain i where i: "i < length ?nodes" "?nodes ! i = node"
    by (auto simp: in_set_conv_nth)
  let ?t = "scanForTables (dateNow br (world st)) ?nodes ! i"
  have len: "length (scanForTables (dateNow br (world st)) ?nodes) = length ?nodes"
    by (simp add: scanForTables_def)
  from i assms(2,3) have "dt_isVisible ?t \<and> dt_rowCount ?t > 0"
    and el: "dt_element ?t = Some (tn_element node)"
    by (simp_all add: scanForTables_nth)
  moreover from i len have "?t \<in> set (scanForTables (dateNow br (world st)) ?nodes)"
    by simp
  ultimately have "?t \<in> set (filter (\<lambda>t. dt_isVisible t \<and> dt_rowCount t > 0)
      (scanForTables (dateNow br (world st)) ?nodes))"
    by simp
  from fold_collectOne_seen [OF this el] show ?thesis
    by (simp add: collectVisible_def Let_def)
qed

lemma scanInv_elements:
  assumes "scanInv st"
  shows "distinct (map dt_element (collected st))"
    and "\<forall>t \<in> set (collected st). dt_element t \<noteq> None"
    and "el \<in> seen st \<Longrightarrow> length (filter (\<lambda>t. dt_element t = Some el) (collected st)) = 1"
proof -
  from assms show d: "distinct (map dt_element (collected st))"
    and s: "\<forall>t \<in> set (collected st). dt_element t \<noteq> None"
    by (auto simp: scanInv_def)
  assume "el \<in> seen st"
  with assms have "Some el \<in> set (map dt_element (collected st))"
    by (simp add: scanInv_def)
  with d show "length (filter (\<lambda>t. dt_element t = Some el) (collected st)) = 1"
    by (rule filter_unique)
qed

lemma visitTrigger_inv: "scanInv st \<Longrightarrow> scanInv (visitTrigger br root trigger st)"
proof -
  assume inv: "scanInv st"
  have w: "scanInv (st\<lparr>world := w\<rparr>)" for w
    using inv by (simp add: scanInv_def)
  have ww: "scanInv (st\<lparr>world := w, warnings := ws\<rparr>)" for w ws
    using inv by (simp add: scanInv_def)
  obtain err w1 where a: "activate br (world st) trigger = (err, w1)"
    by (cases "activate br (world st) trigger")
  then show ?thesis
    by (cases err) (simp_all add: visitTrigger_def Let_def ww collectVisible_inv [OF w])
qed

lemma scan_flat_inv: "scanInv (scanForTablesIncludingSubTabs_flat br root w0)"
proof -
  have 0: "scanInv \<lparr>world = w0, collected = [], seen = {}, warnings = []\<rparr>"
    by (simp add: scanInv_def)
  have 1: "scanInv (collectVisible br root None None
      \<lparr>world = w0, collected = [], seen = {}, warnings = []\<rparr>)" (is "scanInv ?st1")
    by (rule collectVisible_inv [OF 0])
  have 2: "scanInv (fold (visitTrigger br root) (inactiveTriggers br (world ?st1) root) ?st1)"
    by (rule fold_preserves [where P = scanInv, OF 1]) (rule visitTrigger_inv)
  show ?thesis
    unfolding scanForTablesIncludingSubTabs_flat_def Let_def
    using 2 restoreTrigger_inv [OF 2]
    by (cases "queryActiveLoose br w0 root") simp_all
qed

text \<open>
  Claim C2.  For every page and every way it re-renders, a scan with
  scanForTablesIncludingSubTabs ends, and in the sequence it returns no two entries have
  the same table element, and no entry has a null element.  Every table that is visible
  and has rows in the restored state of the page is the element of exactly one entry, so a
  table shown by two tab panels is returned once.  The single-level scan of the earlier
  copy of the hook returns no element twice either.
\<close>

theorem scanForTablesIncludingSubTabs_no_duplicate_elements:
  "(let final = scanForTablesIncludingSubTabs br root w0; result = collected final
    in distinct (map dt_element result)
       \<and> (\<forall>t \<in> set result. dt_element t \<noteq> None)
       \<and> (\<forall>node \<in> set (queryTables br (world final) root).
             nodeIsVisible node \<and> tn_rowCellCounts node \<noteq> [] \<longrightarrow>
             length (filter (\<lambda>t. dt_element t = Some (tn_element node)) result) = 1))
   \<and> (let result = collected (scanForTablesIncludingSubTabs_flat br root w0)
      in distinct (map dt_element result) \<and> (\<forall>t \<in> set result. dt_element t \<noteq> None))"
proof -
  let ?final = "scanForTablesIncludingSubTabs br root w0"
  have inv: "scanInv ?final" by (rule scan_inv)
  have "tn_element node \<in> seen ?final"
    if "node \<in> set (queryTables br (world ?final) root)" "nodeIsVisible node"
      "tn_rowCellCounts node \<noteq> []" for node
  proof -
    obtain st5 where f: "?final = collectVisible br root (Some (js ''Final Restored State'')) None st5"
      by (simp add: scanForTablesIncludingSubTabs_def Let_def)
    with that(1) have "node \<in> set (queryTables br (world st5) (case None of Some c \<Rightarrow> c | None \<Rightarrow> root))"
      by simp
    from collectVisible_seen [OF this that(2,3)] f show ?thesis by simp
  qed
  with scanInv_elements [OF inv] scanInv_elements(1,2) [OF scan_flat_inv [of br root w0]]
  show ?thesis
    by (simp add: Let_def)
qed

text \<open>
  On the sample page both tab panels show table 7: the scan returns it once, with the
  tables 8 and 9 of the two panels.
\<close>

theorem scanForTablesIncludingSubTabs_no_duplicate_elements_witness:
  "map dt_element (collected (scanForTablesIncludingSubTabs tabbedBrowser 0 0))
     = [Some 7, Some 8, Some 9]
   \<and> map dt_element (collected (scanForTablesIncludingSubTabs_flat tabbedBrowser 0 0))
     = [Some 7, Some 8, Some 9]"
  using scanForTablesIncludingSubTabs_no_duplicate_elements [of tabbedBrowser 0 0]
  by code_simp

end
